theory Spec2Isabelle
  imports Complex_Main "HOL-Library.Sublist" "HOL-Library.Multiset"
begin

section \<open>Python floats (IEEE 754 binary64)\<close>

text \<open>
  The coordinates of the network and the angles computed from them are Python floats:
  IEEE 754 doubles. A finite double is \<open>m * 2 ^ e\<close> with \<open>\<bar>m\<bar> < 2 ^ 53\<close> and
  \<open>- 1074 \<le> e \<le> 971\<close>. An arithmetic operation returns the double nearest to its exact
  result, and of two equally near doubles the one whose mantissa is even. \<open>round_double\<close>
  states this rule of the standard; the lemmas of this section compute with it: a double
  rounds to itself, rounding is monotone, and a number within half a unit in the last
  place of a double rounds to that double.
\<close>

definition doubles :: "real set" where
  "doubles = {real_of_int m * 2 powi e | m e. \<bar>m\<bar> < 2 ^ 53 \<and> - 1074 \<le> e \<and> e \<le> 971}"

definition nearest :: "real \<Rightarrow> real set" where
  "nearest x = {f \<in> doubles. \<forall>g \<in> doubles. \<bar>f - x\<bar> \<le> \<bar>g - x\<bar>}"

definition even_mantissa :: "real \<Rightarrow> bool" where
  "even_mantissa f \<longleftrightarrow>
     (\<exists>n. f = real_of_int (2 * n) * 2 powi (max (\<lfloor>log 2 \<bar>f\<bar>\<rfloor> - 52) (- 1074)))"

definition round_double :: "real \<Rightarrow> real" where
  "round_double x =
     (SOME f. f \<in> nearest x \<and> (even_mantissa f \<or> \<not> (\<exists>g \<in> nearest x. even_mantissa g)))"

text \<open>
  \<open>math.pi\<close> is the double \<open>0x1.921fb54442d18p+1\<close>. CPython's \<open>math.degrees\<close> multiplies by
  the constant \<open>radToDeg = 180.0 / Py_MATH_PI\<close>, itself the result of a float division.
\<close>

definition pi_double :: real where
  "pi_double = 884279719003555 / 2 ^ 48"

definition radToDeg :: real where
  "radToDeg = round_double (180 / pi_double)"

text \<open>
  A float is a finite double (\<open>Finite 0\<close> is \<open>0.0\<close>), the negative zero \<open>-0.0\<close>, an
  infinity or a NaN. \<open>val\<close> is the real number a finite float stands for.
\<close>

datatype pyfloat = Finite real | NegZero | PosInf | NegInf | NaN

fun val :: "pyfloat \<Rightarrow> real" where
  "val (Finite r) = r"
| "val NegZero = 0"
| "val PosInf = 0"
| "val NegInf = 0"
| "val NaN = 0"

fun isfinite :: "pyfloat \<Rightarrow> bool" where
  "isfinite (Finite r) = True"
| "isfinite NegZero = True"
| "isfinite PosInf = False"
| "isfinite NegInf = False"
| "isfinite NaN = False"

fun isinf :: "pyfloat \<Rightarrow> bool" where
  "isinf (Finite r) = False"
| "isinf NegZero = False"
| "isinf PosInf = True"
| "isinf NegInf = True"
| "isinf NaN = False"

fun signbit :: "pyfloat \<Rightarrow> bool" where
  "signbit (Finite r) = (r < 0)"
| "signbit NegZero = True"
| "signbit PosInf = False"
| "signbit NegInf = True"
| "signbit NaN = False"

text \<open>
  The float of a nonzero exact result: an infinity from \<open>2 ^ 1024 - 2 ^ 970\<close> on (the
  midpoint between the largest double and \<open>2 ^ 1024\<close>), otherwise the nearest double, and
  \<open>-0.0\<close> when a negative result rounds to zero.
\<close>

definition to_float :: "real \<Rightarrow> pyfloat" where
  "to_float x =
     (if 2 ^ 1024 - 2 ^ 970 \<le> \<bar>x\<bar> then (if x < 0 then NegInf else PosInf)
      else if round_double x = 0 \<and> x < 0 then NegZero
      else Finite (round_double x))"

text \<open>
  Negation, addition, subtraction and multiplication of floats. A sum that is exactly
  zero is \<open>-0.0\<close> only when both terms are \<open>-0.0\<close>; \<open>a - b\<close> is \<open>a + (- b)\<close>; a product that
  is exactly zero has the sign of its factors. None of these operations raises in Python:
  an overflow gives an infinity.
\<close>

fun fneg :: "pyfloat \<Rightarrow> pyfloat" where
  "fneg (Finite r) = (if r = 0 then NegZero else Finite (- r))"
| "fneg NegZero = Finite 0"
| "fneg PosInf = NegInf"
| "fneg NegInf = PosInf"
| "fneg NaN = NaN"

definition fadd :: "pyfloat \<Rightarrow> pyfloat \<Rightarrow> pyfloat" where
  "fadd a b =
     (if a = NaN \<or> b = NaN then NaN
      else if a = PosInf then (if b = NegInf then NaN else PosInf)
      else if a = NegInf then (if b = PosInf then NaN else NegInf)
      else if isinf b then b
      else if val a + val b = 0 then (if a = NegZero \<and> b = NegZero then NegZero else Finite 0)
      else to_float (val a + val b))"

definition fsub :: "pyfloat \<Rightarrow> pyfloat \<Rightarrow> pyfloat" where
  "fsub a b = fadd a (fneg b)"

definition fmul :: "pyfloat \<Rightarrow> pyfloat \<Rightarrow> pyfloat" where
  "fmul a b =
     (if a = NaN \<or> b = NaN then NaN
      else if isinf a \<or> isinf b then
        (if (isfinite a \<and> val a = 0) \<or> (isfinite b \<and> val b = 0) then NaN
         else if signbit a \<noteq> signbit b then NegInf else PosInf)
      else if val a * val b = 0 then (if signbit a \<noteq> signbit b then NegZero else Finite 0)
      else to_float (val a * val b))"

text \<open>The comparisons \<open>a < b\<close>, \<open>a >= b\<close> and \<open>a == b\<close>: false on a NaN, and \<open>-0.0 == 0.0\<close>.\<close>

definition flt :: "pyfloat \<Rightarrow> pyfloat \<Rightarrow> bool" where
  "flt a b \<longleftrightarrow>
     a \<noteq> NaN \<and> b \<noteq> NaN \<and> a \<noteq> PosInf \<and> b \<noteq> NegInf
     \<and> (a = NegInf \<or> b = PosInf \<or> val a < val b)"

definition fge :: "pyfloat \<Rightarrow> pyfloat \<Rightarrow> bool" where
  "fge a b \<longleftrightarrow> a \<noteq> NaN \<and> b \<noteq> NaN \<and> \<not> flt a b"

definition feq :: "pyfloat \<Rightarrow> pyfloat \<Rightarrow> bool" where
  "feq a b \<longleftrightarrow> a \<noteq> NaN \<and> b \<noteq> NaN \<and> \<not> flt a b \<and> \<not> flt b a"

text \<open>C's \<open>copysign(m, y)\<close> for a magnitude \<open>m \<ge> 0\<close>.\<close>

definition copysign :: "real \<Rightarrow> pyfloat \<Rightarrow> pyfloat" where
  "copysign m y = (if signbit y then (if m = 0 then NegZero else Finite (- m)) else Finite m)"

text \<open>
  \<open>math.atan2(y, x)\<close> is CPython's \<open>m_atan2\<close>: it answers the cases with a NaN, an
  infinity or \<open>y == 0\<close> itself and hands every other pair to the \<open>atan2\<close> of the platform's
  C library, the parameter \<open>libm\<close> here (on the values of a finite nonzero \<open>y\<close> and a
  finite \<open>x\<close>; a zero result has the sign of \<open>y\<close>). \<open>0.25 * Py_MATH_PI\<close> and
  \<open>0.5 * Py_MATH_PI\<close> are exact, \<open>0.75 * Py_MATH_PI\<close> is rounded. The wrapper of
  \<open>math.atan2\<close> raises only on a NaN result from arguments that are not NaN or on an
  infinite result from finite arguments; \<open>libm\<close> returns a real number, so neither occurs.
\<close>

definition math_atan2 :: "(real \<Rightarrow> real \<Rightarrow> real) \<Rightarrow> pyfloat \<Rightarrow> pyfloat \<Rightarrow> pyfloat" where
  "math_atan2 libm y x =
     (if x = NaN \<or> y = NaN then NaN
      else if isinf y then
        (if isinf x then
           (if \<not> signbit x then copysign (pi_double / 4) y
            else copysign (round_double (3 / 4 * pi_double)) y)
         else copysign (pi_double / 2) y)
      else if isinf x \<or> val y = 0 then
        (if \<not> signbit x then copysign 0 y else copysign pi_double y)
      else
        (let r = libm (val y) (val x)
         in if r = 0 \<and> val y < 0 then NegZero else Finite r))"

text \<open>\<open>math.degrees(x)\<close> is \<open>x * radToDeg\<close>.\<close>

definition math_degrees :: "pyfloat \<Rightarrow> pyfloat" where
  "math_degrees x = fmul x (Finite radToDeg)"

text \<open>
  A C library whose \<open>atan2\<close> is correctly rounded: the double nearest to the angle of the
  point \<open>(x, y)\<close> in \<open>(-pi, pi]\<close>. The claims that hold for every C library are stated for
  every \<open>libm\<close>; this one serves where a computation is carried out on concrete points.
\<close>

definition real_atan2 :: "real \<Rightarrow> real \<Rightarrow> real" where
  "real_atan2 y x =
     (if 0 < x then arctan (y / x)
      else if x < 0 then (if 0 \<le> y then arctan (y / x) + pi else arctan (y / x) - pi)
      else if 0 < y then pi / 2
      else if y < 0 then - (pi / 2)
      else 0)"

definition libm_atan2 :: "real \<Rightarrow> real \<Rightarrow> real" where
  "libm_atan2 y x = round_double (real_atan2 y x)"

text \<open>The C library never returns an angle beyond \<open>math.pi\<close> in magnitude.\<close>

definition within_pi :: "(real \<Rightarrow> real \<Rightarrow> real) \<Rightarrow> bool" where
  "within_pi libm \<longleftrightarrow> (\<forall>y x. \<bar>libm y x\<bar> \<le> pi_double)"

text \<open>A finite float between two bounds.\<close>

definition between :: "real \<Rightarrow> real \<Rightarrow> pyfloat \<Rightarrow> bool" where
  "between lo hi f \<longleftrightarrow> isfinite f \<and> lo \<le> val f \<and> val f \<le> hi"

subsection \<open>The set of doubles and the nearest double\<close>

lemma doublesI: "\<bar>m\<bar> < 2 ^ 53 \<Longrightarrow> - 1074 \<le> e \<Longrightarrow> e \<le> 971 \<Longrightarrow> real_of_int m * 2 powi e \<in> doubles"
  by (auto simp add: doubles_def)

lemma finite_doubles: "finite doubles"
proof -
  have "doubles \<subseteq> (\<lambda>(m, e). real_of_int m * 2 powi e) ` ({- (2 ^ 53) .. 2 ^ 53} \<times> {- 1074 .. 971})"
    by (auto simp add: doubles_def image_iff) force
  then show ?thesis by (rule finite_subset) simp
qed

lemma zero_double: "0 \<in> doubles"
  using doublesI [of 0 0] by simp

lemma minus_double: "f \<in> doubles \<Longrightarrow> - f \<in> doubles"
proof -
  assume "f \<in> doubles"
  then obtain m e where "f = real_of_int m * 2 powi e" "\<bar>m\<bar> < 2 ^ 53" "- 1074 \<le> e" "e \<le> 971"
    by (auto simp add: doubles_def)
  then show ?thesis using doublesI [of "- m" e] by simp
qed

lemma nearest_nonempty: "nearest x \<noteq> {}"
proof -
  have "doubles \<noteq> {}" using zero_double by blast
  from ex_min_if_finite [OF finite_doubles [THEN finite_imageI, of "\<lambda>f. \<bar>f - x\<bar>"]]
  obtain d where d: "d \<in> (\<lambda>f. \<bar>f - x\<bar>) ` doubles" "\<forall>d' \<in> (\<lambda>f. \<bar>f - x\<bar>) ` doubles. \<not> d' < d"
    using \<open>doubles \<noteq> {}\<close> by blast
  then obtain f where f: "f \<in> doubles" "d = \<bar>f - x\<bar>" by blast
  have "\<forall>g \<in> doubles. \<bar>f - x\<bar> \<le> \<bar>g - x\<bar>"
    using d(2) f(2) by (auto simp add: not_less)
  then show ?thesis using f(1) by (auto simp add: nearest_def)
qed

lemma round_double_nearest: "round_double x \<in> nearest x"
proof -
  have "\<exists>f. f \<in> nearest x \<and> (even_mantissa f \<or> \<not> (\<exists>g \<in> nearest x. even_mantissa g))"
    using nearest_nonempty [of x] by blast
  then show ?thesis unfolding round_double_def by (rule someI2_ex) simp
qed

lemma round_double_double: "round_double x \<in> doubles"
  using round_double_nearest [of x] by (simp add: nearest_def)

lemma round_double_closest: "g \<in> doubles \<Longrightarrow> \<bar>round_double x - x\<bar> \<le> \<bar>g - x\<bar>"
  using round_double_nearest [of x] by (simp add: nearest_def)

lemma round_double_ge: "a \<in> doubles \<Longrightarrow> a \<le> x \<Longrightarrow> a \<le> round_double x"
  using round_double_closest [of a x] by linarith

lemma round_double_le: "b \<in> doubles \<Longrightarrow> x \<le> b \<Longrightarrow> round_double x \<le> b"
  using round_double_closest [of b x] by linarith

lemma round_double_id: "f \<in> doubles \<Longrightarrow> round_double f = f"
  using round_double_ge [of f f] round_double_le [of f f] by simp

lemma double_multiple:
  assumes "f \<in> doubles" "2 powi k \<le> \<bar>f\<bar>"
  shows "\<exists>n. f = real_of_int n * 2 powi (k - 52)"
proof -
  from assms(1) obtain m e where f: "f = real_of_int m * 2 powi e" and m: "\<bar>m\<bar> < 2 ^ 53"
    by (auto simp add: doubles_def)
  have "k - 52 \<le> e"
  proof (rule ccontr)
    assume "\<not> k - 52 \<le> e"
    then have e: "53 + e \<le> k" by simp
    have "\<bar>f\<bar> = real_of_int \<bar>m\<bar> * 2 powi e" by (simp add: f abs_mult)
    also have "\<dots> < 2 ^ 53 * 2 powi e"
    proof -
      have "real_of_int \<bar>m\<bar> < 2 ^ 53" using m by (metis of_int_less_numeral_power_cancel_iff)
      then show ?thesis by (simp add: mult_strict_right_mono)
    qed
    also have "\<dots> = 2 powi (53 + e)" by (simp add: power_int_add)
    also have "\<dots> \<le> 2 powi k" using e by (simp add: power_int_increasing)
    finally show False using assms(2) by simp
  qed
  then obtain j where j: "e = k - 52 + int j" by (metis zle_iff_zadd)
  have "f = real_of_int (m * 2 ^ j) * 2 powi (k - 52)"
    by (simp add: f j power_int_add mult.commute)
  then show ?thesis by blast
qed

lemma double_near_equal:
  assumes "c \<in> doubles" "f \<in> doubles" "2 powi k < c" "\<bar>f - c\<bar> < 2 powi (k - 52)"
  shows "f = c"
proof -
  define q :: real where "q = 2 powi (k - 52)"
  have q: "0 < q" by (simp add: q_def)
  have pk: "2 powi k = 2 ^ 52 * q" by (simp add: q_def power_int_diff)
  have "2 powi k \<le> \<bar>c\<bar>" using assms(3) by simp
  from double_multiple [OF assms(1) this] obtain nc where nc: "c = real_of_int nc * q"
    by (auto simp add: q_def)
  have "2 ^ 52 * q < real_of_int nc * q" using assms(3) by (simp add: pk nc)
  then have "(2 ^ 52 :: real) < real_of_int nc" using q by simp
  then have "(2 ^ 52 :: int) < nc" by (metis of_int_less_iff of_int_numeral of_int_power)
  then have "real_of_int (2 ^ 52 + 1) \<le> real_of_int nc" by (metis of_int_le_iff zless_imp_add1_zle)
  then have "(2 ^ 52 + 1) * q \<le> c" using q by (simp add: nc)
  then have "2 powi k + q \<le> c" by (simp add: pk algebra_simps)
  then have "2 powi k < f" using assms(4) by (simp add: q_def abs_less_iff)
  then have "2 powi k \<le> \<bar>f\<bar>" by simp
  from double_multiple [OF assms(2) this] obtain nf where nf: "f = real_of_int nf * q"
    by (auto simp add: q_def)
  have "f - c = real_of_int (nf - nc) * q" by (simp add: nf nc algebra_simps)
  then have "\<bar>f - c\<bar> = \<bar>real_of_int (nf - nc)\<bar> * q" using q by (simp add: abs_mult)
  then have "\<bar>real_of_int (nf - nc)\<bar> * q < 1 * q" using assms(4) by (simp add: q_def)
  then have "\<bar>real_of_int (nf - nc)\<bar> < 1" using q by (metis mult_less_cancel_right_pos)
  then have "nf = nc" by linarith
  then show ?thesis by (simp add: nf nc)
qed

lemma round_double_eqI:
  assumes "c \<in> doubles" "2 powi k < \<bar>c\<bar>" "\<bar>x - c\<bar> < 2 powi (k - 53)"
  shows "round_double x = c"
proof -
  define f where "f = round_double x"
  have fd: "f \<in> doubles" by (simp add: f_def round_double_double)
  have "\<bar>f - x\<bar> \<le> \<bar>c - x\<bar>" using round_double_closest [OF assms(1)] by (simp add: f_def)
  then have "\<bar>f - c\<bar> < 2 * 2 powi (k - 53)" using assms(3) by linarith
  also have "2 * 2 powi (k - 53) = (2 powi (k - 52) :: real)"
    using power_int_add [of "2 :: real" 1 "k - 53"] by simp
  finally have near: "\<bar>f - c\<bar> < 2 powi (k - 52)" .
  show ?thesis
  proof (cases "0 \<le> c")
    case True
    then show ?thesis using double_near_equal [OF assms(1) fd _ near] assms(2) by (simp add: f_def)
  next
    case False
    then have "2 powi k < - c" using assms(2) by simp
    moreover have "\<bar>- f - (- c)\<bar> < 2 powi (k - 52)" using near by simp
    ultimately have "- f = - c"
      using double_near_equal [OF minus_double [OF assms(1)] minus_double [OF fd]] by blast
    then show ?thesis by (simp add: f_def)
  qed
qed

lemma small_int_double: "\<bar>m\<bar> < 2 ^ 53 \<Longrightarrow> real_of_int m \<in> doubles"
  using doublesI [of m 0] by simp

lemma some_doubles:
  "0 \<in> doubles" "1 \<in> doubles" "45 \<in> doubles" "90 \<in> doubles" "180 \<in> doubles" "270 \<in> doubles"
  "360 \<in> doubles" "- 90 \<in> doubles" "- 180 \<in> doubles"
  using small_int_double [of 0] small_int_double [of 1] small_int_double [of 45]
    small_int_double [of 90] small_int_double [of 180] small_int_double [of 270]
    small_int_double [of 360] small_int_double [of "- 90"] small_int_double [of "- 180"]
  by simp_all

lemma pi_double_double: "pi_double \<in> doubles"
  using doublesI [of 884279719003555 "- 48"] by (simp add: pi_double_def power_int_minus_divide)

lemma radToDeg_value: "radToDeg = 1007958012753983 / 2 ^ 44"
proof -
  have "(1007958012753983 / 2 ^ 44 :: real) \<in> doubles"
    using doublesI [of 1007958012753983 "- 44"] by (simp add: power_int_minus_divide)
  moreover have "(2 :: real) powi 5 < \<bar>1007958012753983 / 2 ^ 44\<bar>" by simp
  moreover have "\<bar>180 / pi_double - 1007958012753983 / 2 ^ 44\<bar> < 2 powi (5 - 53)"
    by (simp add: pi_double_def power_int_minus_divide abs_less_iff)
  ultimately show ?thesis unfolding radToDeg_def by (rule round_double_eqI)
qed

lemma degrees_values:
  "round_double (pi_double * radToDeg) = 180"
  "round_double (pi_double / 2 * radToDeg) = 90"
  "round_double (- (pi_double / 2) * radToDeg) = - 90"
  "round_double (- pi_double * radToDeg) = - 180"
proof -
  show "round_double (pi_double * radToDeg) = 180"
    by (rule round_double_eqI [where k = 7])
       (simp_all add: some_doubles radToDeg_value pi_double_def power_int_minus_divide abs_less_iff)
  show "round_double (pi_double / 2 * radToDeg) = 90"
    by (rule round_double_eqI [where k = 6])
       (simp_all add: some_doubles radToDeg_value pi_double_def power_int_minus_divide abs_less_iff)
  show "round_double (- (pi_double / 2) * radToDeg) = - 90"
    by (rule round_double_eqI [where k = 6])
       (simp_all add: some_doubles radToDeg_value pi_double_def power_int_minus_divide abs_less_iff)
  show "round_double (- pi_double * radToDeg) = - 180"
    by (rule round_double_eqI [where k = 7])
       (simp_all add: some_doubles radToDeg_value pi_double_def power_int_minus_divide abs_less_iff)
qed

subsection \<open>The distance from \<open>math.pi\<close> to \<open>pi\<close>\<close>

lemma arctan_partial_sums:
  fixes x :: real
  assumes "0 \<le> x" "x \<le> 1"
  shows "(\<Sum>i<2 * n. (- 1) ^ i * (1 / real (i * 2 + 1) * x ^ (i * 2 + 1))) \<le> arctan x"
    and "arctan x \<le> (\<Sum>i<2 * n + 1. (- 1) ^ i * (1 / real (i * 2 + 1) * x ^ (i * 2 + 1)))"
proof -
  let ?a = "\<lambda>n. 1 / real (n * 2 + 1) * x ^ (n * 2 + 1)"
  have ax: "\<bar>x\<bar> \<le> 1" using assms by simp
  have z: "?a \<longlonglongrightarrow> 0" by (rule zeroseq_arctan_series [OF ax])
  have p: "\<And>n. 0 \<le> ?a n" using assms by simp
  have m: "\<And>n. ?a (Suc n) \<le> ?a n"
  proof -
    fix n
    have "1 / real (Suc n * 2 + 1) \<le> 1 / real (n * 2 + 1)" by (rule frac_le) simp_all
    moreover have "x ^ (Suc n * 2 + 1) \<le> x ^ (n * 2 + 1)"
      by (rule power_decreasing) (simp_all add: assms)
    ultimately show "?a (Suc n) \<le> ?a n"
      by (intro mult_mono) (simp_all add: assms)
  qed
  have s: "arctan x = (\<Sum>k. (- 1) ^ k * ?a k)" by (rule arctan_series [OF ax])
  show "(\<Sum>i<2 * n. (- 1) ^ i * ?a i) \<le> arctan x"
    unfolding s by (rule summable_Leibniz'(2) [OF z p m])
  show "arctan x \<le> (\<Sum>i<2 * n + 1. (- 1) ^ i * ?a i)"
    unfolding s by (rule summable_Leibniz'(4) [OF z p m])
qed

lemma pi_upper: "pi < 884279719003555 / 2 ^ 48 + 1 / 2 ^ 52"
proof -
  have u: "arctan (1 / 5) \<le> (\<Sum>i<2 * 6 + 1. (- 1) ^ i * (1 / real (i * 2 + 1) * (1 / 5) ^ (i * 2 + 1)))"
    by (rule arctan_partial_sums(2)) simp_all
  have l: "(\<Sum>i<2 * 2. (- 1) ^ i * (1 / real (i * 2 + 1) * (1 / 239) ^ (i * 2 + 1))) \<le> arctan (1 / 239)"
    by (rule arctan_partial_sums(1)) simp_all
  have "pi = 16 * arctan (1 / 5) - 4 * arctan (1 / 239)" using machin by simp
  also have "\<dots> \<le> 16 * (\<Sum>i<2 * 6 + 1. (- 1) ^ i * (1 / real (i * 2 + 1) * (1 / 5) ^ (i * 2 + 1)))
      - 4 * (\<Sum>i<2 * 2. (- 1) ^ i * (1 / real (i * 2 + 1) * (1 / 239) ^ (i * 2 + 1)))"
    using u l by linarith
  also have "\<dots> < 884279719003555 / 2 ^ 48 + 1 / 2 ^ 52"
    by (simp add: eval_nat_numeral)
  finally show ?thesis .
qed

lemma pi_lower: "884279719003555 / 2 ^ 48 < pi"
proof -
  have l: "(\<Sum>i<2 * 6. (- 1) ^ i * (1 / real (i * 2 + 1) * (1 / 5) ^ (i * 2 + 1))) \<le> arctan (1 / 5)"
    by (rule arctan_partial_sums(1)) simp_all
  have u: "arctan (1 / 239) \<le> (\<Sum>i<2 * 1 + 1. (- 1) ^ i * (1 / real (i * 2 + 1) * (1 / 239) ^ (i * 2 + 1)))"
    by (rule arctan_partial_sums(2)) simp_all
  have "884279719003555 / 2 ^ 48 <
      16 * (\<Sum>i<2 * 6. (- 1) ^ i * (1 / real (i * 2 + 1) * (1 / 5) ^ (i * 2 + 1)))
      - 4 * (\<Sum>i<2 * 1 + 1. (- 1) ^ i * (1 / real (i * 2 + 1) * (1 / 239) ^ (i * 2 + 1)))"
    by (simp add: eval_nat_numeral)
  also have "\<dots> \<le> 16 * arctan (1 / 5) - 4 * arctan (1 / 239)"
    using u l by linarith
  also have "\<dots> = pi" using machin by simp
  finally show ?thesis .
qed

lemma pi_double_near: "pi_double < pi" "pi < pi_double + 1 / 2 ^ 52"
  using pi_lower pi_upper by (simp_all add: pi_double_def)

lemma pi_fraction_doubles:
  "pi_double / 2 \<in> doubles" "pi_double / 4 \<in> doubles" "3 / 4 * pi_double \<in> doubles"
  using doublesI [of 884279719003555 "- 49"] doublesI [of 884279719003555 "- 50"]
    doublesI [of 2652839157010665 "- 50"]
  by (simp_all add: pi_double_def power_int_minus_divide)

lemma round_double_pi_fractions:
  "round_double pi = pi_double"
  "round_double (pi / 2) = pi_double / 2"
  "round_double (pi / 4) = pi_double / 4"
  "round_double (3 / 4 * pi) = 3 / 4 * pi_double"
proof -
  note n = pi_double_near
  show "round_double pi = pi_double"
  proof (rule round_double_eqI [where k = 1])
    show "2 powi 1 < \<bar>pi_double\<bar>" by (simp add: pi_double_def)
    show "\<bar>pi - pi_double\<bar> < 2 powi (1 - 53)"
      using n by (simp add: power_int_minus_divide abs_less_iff)
  qed (rule pi_double_double)
  show "round_double (pi / 2) = pi_double / 2"
  proof (rule round_double_eqI [where k = 0])
    show "2 powi 0 < \<bar>pi_double / 2\<bar>" by (simp add: pi_double_def)
    show "\<bar>pi / 2 - pi_double / 2\<bar> < 2 powi (0 - 53)"
      using n by (simp add: power_int_minus_divide abs_less_iff)
  qed (rule pi_fraction_doubles)
  show "round_double (pi / 4) = pi_double / 4"
  proof (rule round_double_eqI [where k = "- 1"])
    show "2 powi (- 1) < \<bar>pi_double / 4\<bar>" by (simp add: pi_double_def power_int_minus_divide)
    show "\<bar>pi / 4 - pi_double / 4\<bar> < 2 powi (- 1 - 53)"
      using n by (simp add: power_int_minus_divide abs_less_iff)
  qed (rule pi_fraction_doubles)
  show "round_double (3 / 4 * pi) = 3 / 4 * pi_double"
  proof (rule round_double_eqI [where k = 1])
    show "2 powi 1 < \<bar>3 / 4 * pi_double\<bar>" by (simp add: pi_double_def)
    show "\<bar>3 / 4 * pi - 3 / 4 * pi_double\<bar> < 2 powi (1 - 53)"
      using n by (simp add: power_int_minus_divide abs_less_iff)
  qed (rule pi_fraction_doubles)
qed

lemma round_double_minus_pi_fractions:
  "round_double (- pi) = - pi_double"
  "round_double (- (pi / 2)) = - (pi_double / 2)"
  "round_double (- (pi / 4)) = - (pi_double / 4)"
  "round_double (- (3 / 4 * pi)) = - (3 / 4 * pi_double)"
proof -
  note n = pi_double_near
  show "round_double (- pi) = - pi_double"
  proof (rule round_double_eqI [where k = 1])
    show "2 powi 1 < \<bar>- pi_double\<bar>" by (simp add: pi_double_def)
    show "\<bar>- pi - - pi_double\<bar> < 2 powi (1 - 53)"
      using n by (simp add: power_int_minus_divide abs_less_iff)
  qed (rule minus_double [OF pi_double_double])
  show "round_double (- (pi / 2)) = - (pi_double / 2)"
  proof (rule round_double_eqI [where k = 0])
    show "2 powi 0 < \<bar>- (pi_double / 2)\<bar>" by (simp add: pi_double_def)
    show "\<bar>- (pi / 2) - - (pi_double / 2)\<bar> < 2 powi (0 - 53)"
      using n by (simp add: power_int_minus_divide abs_less_iff)
  qed (rule minus_double [OF pi_fraction_doubles(1)])
  show "round_double (- (pi / 4)) = - (pi_double / 4)"
  proof (rule round_double_eqI [where k = "- 1"])
    show "2 powi (- 1) < \<bar>- (pi_double / 4)\<bar>" by (simp add: pi_double_def power_int_minus_divide)
    show "\<bar>- (pi / 4) - - (pi_double / 4)\<bar> < 2 powi (- 1 - 53)"
      using n by (simp add: power_int_minus_divide abs_less_iff)
  qed (rule minus_double [OF pi_fraction_doubles(2)])
  show "round_double (- (3 / 4 * pi)) = - (3 / 4 * pi_double)"
  proof (rule round_double_eqI [where k = 1])
    show "2 powi 1 < \<bar>- (3 / 4 * pi_double)\<bar>" by (simp add: pi_double_def)
    show "\<bar>- (3 / 4 * pi) - - (3 / 4 * pi_double)\<bar> < 2 powi (1 - 53)"
      using n by (simp add: power_int_minus_divide abs_less_iff)
  qed (rule minus_double [OF pi_fraction_doubles(3)])
qed

lemma round_double_within_pi:
  assumes "\<bar>x\<bar> \<le> pi"
  shows "\<bar>round_double x\<bar> \<le> pi_double"
proof -
  have u: "round_double x \<le> pi_double"
  proof (cases "x \<le> pi_double")
    case True
    then show ?thesis using round_double_le [OF pi_double_double] by simp
  next
    case False
    have "round_double x = pi_double"
    proof (rule round_double_eqI [where k = 1])
      show "2 powi 1 < \<bar>pi_double\<bar>" by (simp add: pi_double_def)
      show "\<bar>x - pi_double\<bar> < 2 powi (1 - 53)"
        using False assms pi_double_near by (simp add: power_int_minus_divide abs_less_iff)
    qed (rule pi_double_double)
    then show ?thesis by simp
  qed
  have l: "- pi_double \<le> round_double x"
  proof (cases "- pi_double \<le> x")
    case True
    then show ?thesis using round_double_ge [OF minus_double [OF pi_double_double]] by simp
  next
    case False
    have "round_double x = - pi_double"
    proof (rule round_double_eqI [where k = 1])
      show "2 powi 1 < \<bar>- pi_double\<bar>" by (simp add: pi_double_def)
      show "\<bar>x - - pi_double\<bar> < 2 powi (1 - 53)"
        using False assms pi_double_near by (simp add: power_int_minus_divide abs_less_iff)
    qed (rule minus_double [OF pi_double_double])
    then show ?thesis by simp
  qed
  show ?thesis using u l by (simp add: abs_le_iff)
qed

subsection \<open>Rounded operations\<close>

lemma no_overflow:
  fixes x :: real
  assumes "\<bar>x\<bar> \<le> 1024"
  shows "\<not> 2 ^ 1024 - 2 ^ 970 \<le> \<bar>x\<bar>"
proof -
  have "(1024 :: real) < 2 ^ 1024 - 2 ^ 970" by simp
  then show ?thesis using assms by linarith
qed

lemma to_float_small:
  "\<bar>x\<bar> \<le> 1024 \<Longrightarrow>
   to_float x = (if round_double x = 0 \<and> x < 0 then NegZero else Finite (round_double x))"
  using no_overflow [of x] by (simp add: to_float_def)

lemma to_float_double:
  "x \<in> doubles \<Longrightarrow> \<bar>x\<bar> \<le> 1024 \<Longrightarrow> to_float x = Finite x"
  by (simp add: to_float_small round_double_id)

lemma to_float_not_NaN: "to_float x \<noteq> NaN"
  by (simp add: to_float_def)

lemma to_float_between:
  assumes "lo \<in> doubles" "hi \<in> doubles" "lo \<le> x" "x \<le> hi" "- 1024 \<le> lo" "hi \<le> 1024"
  shows "between lo hi (to_float x)"
proof -
  have s: "\<bar>x\<bar> \<le> 1024" using assms by (simp add: abs_le_iff)
  have r: "lo \<le> round_double x" "round_double x \<le> hi"
    using round_double_ge [OF assms(1,3)] round_double_le [OF assms(2,4)] by simp_all
  show ?thesis using r by (auto simp add: to_float_small [OF s] between_def)
qed

lemma fneg_facts: "isfinite (fneg b) = isfinite b" "fneg b \<noteq> NaN \<longleftrightarrow> b \<noteq> NaN"
  by (cases b; simp)+

lemma fadd_not_NaN: "isfinite a \<Longrightarrow> isfinite b \<Longrightarrow> fadd a b \<noteq> NaN"
  by (cases a; cases b; simp add: fadd_def to_float_not_NaN)

lemma fsub_not_NaN: "isfinite a \<Longrightarrow> isfinite b \<Longrightarrow> fsub a b \<noteq> NaN"
  by (simp add: fsub_def fadd_not_NaN fneg_facts)

lemma copysign_between: "0 \<le> m \<Longrightarrow> m \<le> b \<Longrightarrow> between (- b) b (copysign m y)"
  by (simp add: copysign_def between_def)

lemma round_three_quarters: "round_double (3 / 4 * pi_double) = 3 / 4 * pi_double"
  by (rule round_double_id) (rule pi_fraction_doubles)

lemma pi_double_pos: "0 < pi_double"
  by (simp add: pi_double_def)

lemma math_atan2_between:
  assumes "within_pi libm" "y \<noteq> NaN" "x \<noteq> NaN"
  shows "between (- pi_double) pi_double (math_atan2 libm y x)"
proof -
  have l: "between (- pi_double) pi_double
      (let r = libm (val y) (val x) in if r = 0 \<and> val y < 0 then NegZero else Finite r)"
  proof -
    have "\<bar>libm (val y) (val x)\<bar> \<le> pi_double" using assms(1) by (simp add: within_pi_def)
    then show ?thesis using pi_double_pos by (simp add: between_def Let_def abs_le_iff)
  qed
  have c: "between (- pi_double) pi_double (copysign (pi_double / 4) y)"
    "between (- pi_double) pi_double (copysign (pi_double / 2) y)"
    "between (- pi_double) pi_double (copysign 0 y)"
    "between (- pi_double) pi_double (copysign pi_double y)"
    using pi_double_pos by (simp_all add: copysign_between)
  have d: "between (- pi_double) pi_double (copysign (round_double (3 / 4 * pi_double)) y)"
    unfolding round_three_quarters by (rule copysign_between) (use pi_double_pos in simp_all)
  show ?thesis using assms(2,3) l c d by (simp add: math_atan2_def del: times_divide_eq_left)
qed

lemma radToDeg_bounds: "32 < radToDeg" "radToDeg < 64" "pi_double * radToDeg \<le> 180"
  by (simp_all add: radToDeg_value pi_double_def)

lemma math_degrees_between:
  assumes "between (- pi_double) pi_double f"
  shows "between (- 180) 180 (math_degrees f)"
proof -
  have f: "isfinite f" "- pi_double \<le> val f" "val f \<le> pi_double"
    using assms by (simp_all add: between_def)
  have i: "\<not> isinf f" "f \<noteq> NaN" using f(1) by (cases f; simp)+
  have b: "- 180 \<le> val f * radToDeg" "val f * radToDeg \<le> 180"
  proof -
    have "val f * radToDeg \<le> pi_double * radToDeg"
      using f(3) radToDeg_bounds(1) by (simp add: mult_right_mono)
    then show "val f * radToDeg \<le> 180" using radToDeg_bounds(3) by linarith
    have "(- pi_double) * radToDeg \<le> val f * radToDeg"
      using f(2) radToDeg_bounds(1) by (intro mult_right_mono) simp_all
    then show "- 180 \<le> val f * radToDeg" using radToDeg_bounds(3) by simp
  qed
  have t: "between (- 180) 180 (to_float (val f * radToDeg))"
    by (rule to_float_between) (simp_all add: some_doubles b)
  show ?thesis using i t
    by (simp add: math_degrees_def fmul_def) (simp add: between_def)
qed

lemma fsub_Finite:
  assumes "a - b \<in> doubles" "\<bar>a - b\<bar> \<le> 1024"
  shows "fsub (Finite a) (Finite b) = Finite (a - b)"
proof (cases "a - b = 0")
  case True
  then show ?thesis by (simp add: fsub_def fadd_def)
next
  case False
  have "to_float (a - b) = Finite (a - b)" using assms by (rule to_float_double)
  then show ?thesis using False by (cases "b = 0") (simp_all add: fsub_def fadd_def)
qed

lemma fsub_equal:
  assumes "isfinite a" "isfinite b" "val a = val b"
  shows "fsub a b = (if a = NegZero \<and> b = Finite 0 then NegZero else Finite 0)"
  using assms by (cases a; cases b; simp add: fsub_def fadd_def)

lemma math_atan2_zero:
  assumes "y = Finite 0 \<or> y = NegZero" "x \<noteq> NaN"
  shows "math_atan2 libm y x =
    (if \<not> signbit x then copysign 0 y else copysign pi_double y)"
  using assms by (auto simp add: math_atan2_def)

lemma math_atan2_Finite:
  assumes "y \<noteq> 0" "libm y x \<noteq> 0"
  shows "math_atan2 libm (Finite y) (Finite x) = Finite (libm y x)"
  using assms by (simp add: math_atan2_def Let_def)

lemma radToDeg_pos: "0 < radToDeg" "\<not> radToDeg < 0" "radToDeg \<noteq> 0"
  using radToDeg_bounds(1) by simp_all

lemma math_degrees_zero:
  "math_degrees (Finite 0) = Finite 0" "math_degrees NegZero = NegZero"
  by (simp_all add: math_degrees_def fmul_def radToDeg_pos)

lemma math_degrees_Finite:
  assumes "r \<noteq> 0" "\<bar>r * radToDeg\<bar> \<le> 1024" "round_double (r * radToDeg) = d" "d \<noteq> 0"
  shows "math_degrees (Finite r) = Finite d"
  using assms by (simp add: math_degrees_def fmul_def radToDeg_pos to_float_small)

lemma degrees_more_values:
  "round_double (pi_double / 4 * radToDeg) = 45"
  "round_double (3 / 4 * pi_double * radToDeg) = 135"
  "round_double (- (pi_double / 4) * radToDeg) = - 45"
  "round_double (- (3 / 4 * pi_double) * radToDeg) = - 135"
proof -
  have d: "45 \<in> doubles" "135 \<in> doubles" "- 45 \<in> doubles" "- 135 \<in> doubles"
    using small_int_double [of 45] small_int_double [of 135]
      small_int_double [of "- 45"] small_int_double [of "- 135"] by simp_all
  show "round_double (pi_double / 4 * radToDeg) = 45"
    by (rule round_double_eqI [where k = 5])
       (simp_all add: d radToDeg_value pi_double_def power_int_minus_divide abs_less_iff)
  show "round_double (3 / 4 * pi_double * radToDeg) = 135"
    by (rule round_double_eqI [where k = 7])
       (simp_all add: d radToDeg_value pi_double_def power_int_minus_divide abs_less_iff)
  show "round_double (- (pi_double / 4) * radToDeg) = - 45"
    by (rule round_double_eqI [where k = 5])
       (simp_all add: d radToDeg_value pi_double_def power_int_minus_divide abs_less_iff)
  show "round_double (- (3 / 4 * pi_double) * radToDeg) = - 135"
    by (rule round_double_eqI [where k = 7])
       (simp_all add: d radToDeg_value pi_double_def power_int_minus_divide abs_less_iff)
qed

lemma math_degrees_values:
  "math_degrees (Finite pi_double) = Finite 180"
  "math_degrees (Finite (pi_double / 2)) = Finite 90"
  "math_degrees (Finite (pi_double / 4)) = Finite 45"
  "math_degrees (Finite (3 / 4 * pi_double)) = Finite 135"
  "math_degrees (Finite (- pi_double)) = Finite (- 180)"
  "math_degrees (Finite (- (pi_double / 2))) = Finite (- 90)"
  "math_degrees (Finite (- (pi_double / 4))) = Finite (- 45)"
  "math_degrees (Finite (- (3 / 4 * pi_double))) = Finite (- 135)"
proof -
  show "math_degrees (Finite pi_double) = Finite 180"
    by (rule math_degrees_Finite [OF _ _ degrees_values(1)])
       (simp_all add: radToDeg_value pi_double_def)
  show "math_degrees (Finite (pi_double / 2)) = Finite 90"
    by (rule math_degrees_Finite [OF _ _ degrees_values(2)])
       (simp_all add: radToDeg_value pi_double_def)
  show "math_degrees (Finite (pi_double / 4)) = Finite 45"
    by (rule math_degrees_Finite [OF _ _ degrees_more_values(1)])
       (simp_all add: radToDeg_value pi_double_def)
  show "math_degrees (Finite (3 / 4 * pi_double)) = Finite 135"
    by (rule math_degrees_Finite [OF _ _ degrees_more_values(2)])
       (simp_all add: radToDeg_value pi_double_def)
  show "math_degrees (Finite (- pi_double)) = Finite (- 180)"
    by (rule math_degrees_Finite [OF _ _ degrees_values(4)])
       (simp_all add: radToDeg_value pi_double_def)
  show "math_degrees (Finite (- (pi_double / 2))) = Finite (- 90)"
    by (rule math_degrees_Finite [OF _ _ degrees_values(3)])
       (simp_all add: radToDeg_value pi_double_def)
  show "math_degrees (Finite (- (pi_double / 4))) = Finite (- 45)"
    by (rule math_degrees_Finite [OF _ _ degrees_more_values(3)])
       (simp_all add: radToDeg_value pi_double_def)
  show "math_degrees (Finite (- (3 / 4 * pi_double))) = Finite (- 135)"
    by (rule math_degrees_Finite [OF _ _ degrees_more_values(4)])
       (simp_all add: radToDeg_value pi_double_def)
qed

lemma libm_atan2_values:
  "libm_atan2 1 0 = pi_double / 2"
  "libm_atan2 (- 1) 0 = - (pi_double / 2)"
  "libm_atan2 1 1 = pi_double / 4"
  "libm_atan2 1 (- 1) = 3 / 4 * pi_double"
  "libm_atan2 (- 1) (- 1) = - (3 / 4 * pi_double)"
  "libm_atan2 (- 1) 1 = - (pi_double / 4)"
proof -
  have r: "real_atan2 1 0 = pi / 2" "real_atan2 (- 1) 0 = - (pi / 2)"
    "real_atan2 1 1 = pi / 4" "real_atan2 1 (- 1) = 3 / 4 * pi"
    "real_atan2 (- 1) (- 1) = - (3 / 4 * pi)" "real_atan2 (- 1) 1 = - (pi / 4)"
    by (simp_all add: real_atan2_def arctan_one arctan_minus)
  show "libm_atan2 1 0 = pi_double / 2" "libm_atan2 (- 1) 0 = - (pi_double / 2)"
    "libm_atan2 1 1 = pi_double / 4" "libm_atan2 1 (- 1) = 3 / 4 * pi_double"
    "libm_atan2 (- 1) (- 1) = - (3 / 4 * pi_double)" "libm_atan2 (- 1) 1 = - (pi_double / 4)"
    unfolding libm_atan2_def r
    by (rule round_double_pi_fractions round_double_minus_pi_fractions)+
qed

lemma real_atan2_range: "\<bar>real_atan2 y x\<bar> \<le> pi"
proof -
  have b: "- (pi / 2) < arctan (y / x)" "arctan (y / x) < pi / 2"
    using arctan_bounded [of "y / x"] by simp_all
  show ?thesis
  proof (cases "0 < x")
    case True
    then show ?thesis using b by (simp add: real_atan2_def abs_le_iff)
  next
    case nx: False
    show ?thesis
    proof (cases "x < 0")
      case xneg: True
      show ?thesis
      proof (cases "0 \<le> y")
        case True
        then have "y / x \<le> 0" using xneg by (simp add: divide_nonneg_neg)
        then have "arctan (y / x) \<le> 0" by (simp add: arctan_le_zero_iff)
        then show ?thesis using b xneg True by (simp add: real_atan2_def abs_le_iff)
      next
        case False
        then have "0 < y / x" using xneg by (simp add: divide_neg_neg)
        then have "0 < arctan (y / x)" by (simp add: zero_less_arctan_iff)
        then show ?thesis using b xneg False by (simp add: real_atan2_def abs_le_iff)
      qed
    next
      case False
      then have "real_atan2 y x = pi / 2 \<or> real_atan2 y x = - (pi / 2) \<or> real_atan2 y x = 0"
        using nx by (simp add: real_atan2_def)
      then show ?thesis using pi_gt_zero by (elim disjE) (simp_all only: abs_le_iff, linarith+)
    qed
  qed
qed

lemma libm_atan2_within_pi: "within_pi libm_atan2"
  by (simp add: within_pi_def libm_atan2_def round_double_within_pi real_atan2_range)

lemma add_360:
  assumes "d < 0" "- 360 < d" "d + 360 \<in> doubles"
  shows "fadd (Finite d) (Finite 360) = Finite (d + 360)"
  using assms by (simp add: fadd_def to_float_double)

lemma arctan_small:
  fixes t :: real
  assumes "0 \<le> t" "t \<le> 1"
  shows "t / 2 \<le> arctan t" "arctan t \<le> t"
proof -
  have "t ^ 3 \<le> t ^ 1" by (rule power_decreasing) (simp_all add: assms)
  moreover have "t - t ^ 3 / 3 \<le> arctan t"
    using arctan_partial_sums(1) [OF assms, of 1] by (simp add: eval_nat_numeral)
  ultimately show "t / 2 \<le> arctan t" using assms(1) by simp
  show "arctan t \<le> t" using arctan_partial_sums(2) [OF assms, of 0] by simp
qed



section \<open>Direction classifier (simulator/edge\_mapping.py)\<close>

text \<open>
  \<open>compute_bearing\<close> and \<open>classify_direction\<close> on floats. The integers 360, 315, 45, 135
  and 225 of the source are converted to floats by the addition and the comparisons.
\<close>

definition compute_bearing ::
  "(real \<Rightarrow> real \<Rightarrow> real) \<Rightarrow> pyfloat \<Rightarrow> pyfloat \<Rightarrow> pyfloat \<Rightarrow> pyfloat \<Rightarrow> pyfloat" where
  "compute_bearing libm x1 y1 x2 y2 =
     (let angle = math_degrees (math_atan2 libm (fsub y2 y1) (fsub x2 x1))
      in if flt angle (Finite 0) then fadd angle (Finite 360) else angle)"

definition classify_direction :: "pyfloat \<Rightarrow> string" where
  "classify_direction angle =
     (if fge angle (Finite 315) \<or> flt angle (Finite 45) then ''east''
      else if flt angle (Finite 135) then ''north''
      else if flt angle (Finite 225) then ''west''
      else ''south'')"

subsection \<open>Range of the bearing\<close>

lemma compute_bearing_between:
  assumes "isfinite x1" "isfinite y1" "isfinite x2" "isfinite y2" "within_pi libm"
  shows "between 0 360 (compute_bearing libm x1 y1 x2 y2)"
proof -
  define angle where "angle = math_degrees (math_atan2 libm (fsub y2 y1) (fsub x2 x1))"
  have w: "between (- 180) 180 angle"
    unfolding angle_def
    by (intro math_degrees_between math_atan2_between fsub_not_NaN assms)
  then have f: "isfinite angle" "- 180 \<le> val angle" "val angle \<le> 180"
    by (simp_all add: between_def)
  have i: "\<not> isinf angle" "angle \<noteq> NaN" "angle \<noteq> PosInf" "angle \<noteq> NegInf"
    using f(1) by (cases angle; simp)+
  show ?thesis
  proof (cases "flt angle (Finite 0)")
    case True
    then have n: "val angle < 0" using i by (simp add: flt_def)
    have "between 180 360 (to_float (val angle + 360))"
      by (rule to_float_between) (use n f in \<open>simp_all add: some_doubles\<close>)
    then have "between 0 360 (fadd angle (Finite 360))"
      using i n f by (simp add: fadd_def between_def)
    then show ?thesis using True by (simp add: compute_bearing_def angle_def [symmetric])
  next
    case False
    then have "0 \<le> val angle" using i by (simp add: flt_def)
    then show ?thesis using False f
      by (simp add: compute_bearing_def angle_def [symmetric] between_def)
  qed
qed

lemma classify_direction_buckets:
  assumes "isfinite a"
  shows "classify_direction a = ''east'' \<longleftrightarrow> 315 \<le> val a \<or> val a < 45"
    "classify_direction a = ''north'' \<longleftrightarrow> 45 \<le> val a \<and> val a < 135"
    "classify_direction a = ''west'' \<longleftrightarrow> 135 \<le> val a \<and> val a < 225"
    "classify_direction a = ''south'' \<longleftrightarrow> 225 \<le> val a \<and> val a < 315"
  using assms by (cases a; auto simp add: classify_direction_def flt_def fge_def)+

lemma classify_direction_total:
  "classify_direction a \<in> {''east'', ''north'', ''west'', ''south''}"
  by (simp add: classify_direction_def)

subsection \<open>Bearings of particular points\<close>

lemma compute_bearing_axes:
  "compute_bearing libm_atan2 (Finite 0) (Finite 0) (Finite 1) (Finite 0) = Finite 0"
  "compute_bearing libm_atan2 (Finite 0) (Finite 0) (Finite 0) (Finite 1) = Finite 90"
  "compute_bearing libm_atan2 (Finite 0) (Finite 0) (Finite (- 1)) (Finite 0) = Finite 180"
  "compute_bearing libm_atan2 (Finite 0) (Finite 0) (Finite 0) (Finite (- 1)) = Finite 270"
proof -
  have s: "fsub (Finite 0) (Finite 0) = Finite 0" "fsub (Finite 1) (Finite 0) = Finite 1"
    "fsub (Finite (- 1)) (Finite 0) = Finite (- 1)"
    using fsub_Finite [of 0 0] fsub_Finite [of 1 0] fsub_Finite [of "- 1" 0]
      small_int_double [of "- 1"]
    by (simp_all add: some_doubles)
  have a: "math_atan2 libm_atan2 (Finite 0) (Finite 1) = Finite 0"
    "math_atan2 libm_atan2 (Finite 0) (Finite (- 1)) = Finite pi_double"
    by (simp_all add: math_atan2_zero copysign_def)
  have b: "math_atan2 libm_atan2 (Finite 1) (Finite 0) = Finite (pi_double / 2)"
    "math_atan2 libm_atan2 (Finite (- 1)) (Finite 0) = Finite (- (pi_double / 2))"
    using math_atan2_Finite [of 1 libm_atan2 0] math_atan2_Finite [of "- 1" libm_atan2 0]
      pi_double_pos
    by (simp_all add: libm_atan2_values)
  show "compute_bearing libm_atan2 (Finite 0) (Finite 0) (Finite 1) (Finite 0) = Finite 0"
    by (simp add: compute_bearing_def s a math_degrees_zero flt_def)
  show "compute_bearing libm_atan2 (Finite 0) (Finite 0) (Finite 0) (Finite 1) = Finite 90"
    by (simp add: compute_bearing_def s b math_degrees_values flt_def)
  show "compute_bearing libm_atan2 (Finite 0) (Finite 0) (Finite (- 1)) (Finite 0) = Finite 180"
    by (simp add: compute_bearing_def s a math_degrees_values flt_def)
  show "compute_bearing libm_atan2 (Finite 0) (Finite 0) (Finite 0) (Finite (- 1)) = Finite 270"
    using add_360 [of "- 90"]
    by (simp add: compute_bearing_def s b math_degrees_values flt_def some_doubles)
qed

lemma compute_bearing_diagonals:
  "compute_bearing libm_atan2 (Finite 0) (Finite 0) (Finite 1) (Finite 1) = Finite 45"
  "compute_bearing libm_atan2 (Finite 0) (Finite 0) (Finite (- 1)) (Finite 1) = Finite 135"
  "compute_bearing libm_atan2 (Finite 0) (Finite 0) (Finite (- 1)) (Finite (- 1)) = Finite 225"
  "compute_bearing libm_atan2 (Finite 0) (Finite 0) (Finite 1) (Finite (- 1)) = Finite 315"
proof -
  have s: "fsub (Finite 1) (Finite 0) = Finite 1"
    "fsub (Finite (- 1)) (Finite 0) = Finite (- 1)"
    using fsub_Finite [of 1 0] fsub_Finite [of "- 1" 0] small_int_double [of "- 1"]
    by (simp_all add: some_doubles)
  have b: "math_atan2 libm_atan2 (Finite 1) (Finite 1) = Finite (pi_double / 4)"
    "math_atan2 libm_atan2 (Finite 1) (Finite (- 1)) = Finite (3 / 4 * pi_double)"
    "math_atan2 libm_atan2 (Finite (- 1)) (Finite (- 1)) = Finite (- (3 / 4 * pi_double))"
    "math_atan2 libm_atan2 (Finite (- 1)) (Finite 1) = Finite (- (pi_double / 4))"
    using math_atan2_Finite [of 1 libm_atan2 1] math_atan2_Finite [of 1 libm_atan2 "- 1"]
      math_atan2_Finite [of "- 1" libm_atan2 "- 1"] math_atan2_Finite [of "- 1" libm_atan2 1]
      pi_double_pos
    by (simp_all add: libm_atan2_values del: times_divide_eq_left)
  have d: "(225 :: real) \<in> doubles" "(315 :: real) \<in> doubles"
    using small_int_double [of 225] small_int_double [of 315] by simp_all
  show "compute_bearing libm_atan2 (Finite 0) (Finite 0) (Finite 1) (Finite 1) = Finite 45"
    by (simp add: compute_bearing_def s b math_degrees_values flt_def)
  show "compute_bearing libm_atan2 (Finite 0) (Finite 0) (Finite (- 1)) (Finite 1) = Finite 135"
    by (simp add: compute_bearing_def s b math_degrees_values flt_def del: times_divide_eq_left)
  show "compute_bearing libm_atan2 (Finite 0) (Finite 0) (Finite (- 1)) (Finite (- 1)) = Finite 225"
    using add_360 [of "- 135"]
    by (simp add: compute_bearing_def s b math_degrees_values flt_def d del: times_divide_eq_left)
  show "compute_bearing libm_atan2 (Finite 0) (Finite 0) (Finite 1) (Finite (- 1)) = Finite 315"
    using add_360 [of "- 45"]
    by (simp add: compute_bearing_def s b math_degrees_values flt_def d)
qed

lemma bearing_just_below_east:
  "compute_bearing libm_atan2 (Finite 0) (Finite 0) (Finite 1) (Finite (- (1 / 2 ^ 70)))
     = Finite 360"
proof -
  define t :: real where "t = 1 / 2 ^ 70"
  have td: "- t \<in> doubles" "- (t / 2) \<in> doubles" "- (64 * t) \<in> doubles" "- (16 * t) \<in> doubles"
    using doublesI [of "- 1" "- 70"] doublesI [of "- 1" "- 71"]
      doublesI [of "- 1" "- 64"] doublesI [of "- 1" "- 66"]
    by (simp_all add: t_def power_int_minus_divide)
  have s: "fsub (Finite (- t)) (Finite 0) = Finite (- t)" "fsub (Finite 1) (Finite 0) = Finite 1"
    using fsub_Finite [of "- t" 0] fsub_Finite [of 1 0] td(1)
    by (simp_all add: some_doubles t_def)
  define r where "r = libm_atan2 (- t) 1"
  have a: "t / 2 \<le> arctan t" "arctan t \<le> t"
    by (rule arctan_small; simp add: t_def)+
  have "r = round_double (- arctan t)"
    by (simp add: r_def libm_atan2_def real_atan2_def arctan_minus)
  then have r: "- t \<le> r" "r \<le> - (t / 2)"
    using round_double_ge [OF td(1), of "- arctan t"] round_double_le [OF td(2), of "- arctan t"] a
    by simp_all
  have tp: "0 < t" by (simp add: t_def)
  have rn: "r \<noteq> 0" "r < 0" using r(2) tp by simp_all
  have m: "math_atan2 libm_atan2 (Finite (- t)) (Finite 1) = Finite r"
    using math_atan2_Finite [of "- t" libm_atan2 1] rn tp by (simp add: r_def)
  define f where "f = round_double (r * radToDeg)"
  have p: "- (64 * t) \<le> r * radToDeg" "r * radToDeg \<le> - (16 * t)"
  proof -
    have "(- r) * radToDeg \<le> t * 64"
      by (rule mult_mono) (use r rn radToDeg_bounds in simp_all)
    then show "- (64 * t) \<le> r * radToDeg" by simp
    have "(t / 2) * 32 \<le> (- r) * radToDeg"
      by (rule mult_mono) (use r tp radToDeg_bounds in simp_all)
    then show "r * radToDeg \<le> - (16 * t)" by simp
  qed
  have f: "- (64 * t) \<le> f" "f \<le> - (16 * t)"
    unfolding f_def using round_double_ge [OF td(3) p(1)] round_double_le [OF td(4) p(2)]
    by simp_all
  have fn: "f < 0" "f \<noteq> 0" using f(2) tp by simp_all
  have small: "\<bar>r * radToDeg\<bar> \<le> 1024" using p tp by (simp add: t_def abs_le_iff)
  have d: "math_degrees (Finite r) = Finite f"
    using math_degrees_Finite [OF rn(1) small _ fn(2)] by (simp add: f_def)
  have e: "round_double (f + 360) = 360"
  proof (rule round_double_eqI [where k = 8])
    show "\<bar>f + 360 - 360\<bar> < 2 powi (8 - 53)"
      using f fn by (simp add: t_def power_int_minus_divide abs_less_iff)
  qed (simp_all add: some_doubles)
  have g: "\<bar>f + 360\<bar> \<le> 1024" using f fn by (simp add: t_def abs_le_iff)
  have h: "f + 360 \<noteq> 0" using f by (simp add: t_def)
  have "fadd (Finite f) (Finite 360) = Finite 360"
    using h by (simp add: fadd_def to_float_small [OF g] e)
  then have "compute_bearing libm_atan2 (Finite 0) (Finite 0) (Finite 1) (Finite (- t))
      = Finite 360"
    using fn by (simp add: compute_bearing_def s m d flt_def)
  then show ?thesis by (simp only: t_def)
qed

lemma feq_val: "isfinite a \<Longrightarrow> isfinite b \<Longrightarrow> feq a b \<Longrightarrow> val b = val a"
  by (cases a; cases b; simp add: feq_def flt_def)

lemma compute_bearing_coincident:
  assumes "isfinite x1" "isfinite y1" "isfinite x2" "isfinite y2" "feq x1 x2" "feq y1 y2"
  shows "if x2 = NegZero \<and> x1 = Finite 0
     then compute_bearing libm x1 y1 x2 y2 = Finite 180
     else compute_bearing libm x1 y1 x2 y2 \<in> {Finite 0, NegZero}"
proof -
  have v: "val x2 = val x1" "val y2 = val y1"
    using assms by (simp_all add: feq_val)
  have dx: "fsub x2 x1 = (if x2 = NegZero \<and> x1 = Finite 0 then NegZero else Finite 0)"
    by (rule fsub_equal [OF assms(3,1) v(1)])
  have dy: "fsub y2 y1 = (if y2 = NegZero \<and> y1 = Finite 0 then NegZero else Finite 0)"
    by (rule fsub_equal [OF assms(4,2) v(2)])
  have y0: "fsub y2 y1 = Finite 0 \<or> fsub y2 y1 = NegZero" by (simp add: dy)
  have p: "fadd (Finite (- 180)) (Finite 360) = Finite 180"
    using add_360 [of "- 180"] by (simp add: some_doubles)
  show ?thesis
  proof (cases "x2 = NegZero \<and> x1 = Finite 0")
    case True
    have "fsub x2 x1 = NegZero" using dx True by simp
    then have "math_atan2 libm (fsub y2 y1) (fsub x2 x1) = copysign pi_double (fsub y2 y1)"
      using math_atan2_zero [OF y0, of NegZero libm] by simp
    then show ?thesis using True y0 pi_double_pos
      by (auto simp add: compute_bearing_def copysign_def math_degrees_values flt_def p)
  next
    case False
    have "fsub x2 x1 = Finite 0" using dx False by simp
    then have "math_atan2 libm (fsub y2 y1) (fsub x2 x1) = copysign 0 (fsub y2 y1)"
      using math_atan2_zero [OF y0, of "Finite 0" libm] by simp
    then show ?thesis using False y0
      by (auto simp add: compute_bearing_def copysign_def math_degrees_zero flt_def)
  qed
qed

text \<open>
  Claim C6, as the code has it. For every pair of points with finite coordinates, and
  every C library whose \<open>atan2\<close> stays within \<open>math.pi\<close>, the bearing is a finite float in
  \<open>[0, 360]\<close>: the upper end is closed, because the sum of a tiny negative angle and 360
  rounds to \<open>360.0\<close>. A bearing in \<open>[315, 360]\<close> or \<open>[0, 45)\<close> is classified east, one in
  \<open>[45, 135)\<close> north, one in \<open>[135, 225)\<close> west and one in \<open>[225, 315)\<close> south. With the
  correctly rounded \<open>atan2\<close> the diagonal unit steps have the bearings 45, 135, 225 and 315
  and fall in the upper bucket, and the axis unit steps have the bearings 0, 90, 180 and
  270 and give east, north, west and south.
\<close>

theorem bearing_classification:
  assumes "isfinite x1" and "isfinite y1" and "isfinite x2" and "isfinite y2"
    and "within_pi libm"
  defines "a \<equiv> compute_bearing libm x1 y1 x2 y2"
  shows "isfinite a \<and> 0 \<le> val a \<and> val a \<le> 360
    \<and> (classify_direction a = ''east'' \<longleftrightarrow> (315 \<le> val a \<and> val a \<le> 360) \<or> (0 \<le> val a \<and> val a < 45))
    \<and> (classify_direction a = ''north'' \<longleftrightarrow> 45 \<le> val a \<and> val a < 135)
    \<and> (classify_direction a = ''west'' \<longleftrightarrow> 135 \<le> val a \<and> val a < 225)
    \<and> (classify_direction a = ''south'' \<longleftrightarrow> 225 \<le> val a \<and> val a < 315)
    \<and> classify_direction (compute_bearing libm_atan2 (Finite 0) (Finite 0) (Finite 1) (Finite 1)) = ''north''
    \<and> classify_direction (compute_bearing libm_atan2 (Finite 0) (Finite 0) (Finite (- 1)) (Finite 1)) = ''west''
    \<and> classify_direction (compute_bearing libm_atan2 (Finite 0) (Finite 0) (Finite (- 1)) (Finite (- 1))) = ''south''
    \<and> classify_direction (compute_bearing libm_atan2 (Finite 0) (Finite 0) (Finite 1) (Finite (- 1))) = ''east''
    \<and> classify_direction (compute_bearing libm_atan2 (Finite 0) (Finite 0) (Finite 1) (Finite 0)) = ''east''
    \<and> classify_direction (compute_bearing libm_atan2 (Finite 0) (Finite 0) (Finite 0) (Finite 1)) = ''north''
    \<and> classify_direction (compute_bearing libm_atan2 (Finite 0) (Finite 0) (Finite (- 1)) (Finite 0)) = ''west''
    \<and> classify_direction (compute_bearing libm_atan2 (Finite 0) (Finite 0) (Finite 0) (Finite (- 1))) = ''south''"
proof -
  have r: "isfinite a" "0 \<le> val a" "val a \<le> 360"
    using compute_bearing_between [OF assms(1-5)] by (simp_all add: a_def between_def)
  have e: "classify_direction a = ''east'' \<longleftrightarrow> (315 \<le> val a \<and> val a \<le> 360) \<or> (0 \<le> val a \<and> val a < 45)"
    using r by (simp add: classify_direction_buckets(1))
  have ex: "classify_direction (Finite 45) = ''north''" "classify_direction (Finite 135) = ''west''"
    "classify_direction (Finite 225) = ''south''" "classify_direction (Finite 315) = ''east''"
    "classify_direction (Finite 0) = ''east''" "classify_direction (Finite 90) = ''north''"
    "classify_direction (Finite 180) = ''west''" "classify_direction (Finite 270) = ''south''"
    by (simp_all add: classify_direction_def flt_def fge_def)
  show ?thesis
    using r e ex
    by (simp only: classify_direction_buckets(2,3,4) [OF r(1)] compute_bearing_axes
        compute_bearing_diagonals simp_thms)
qed

theorem bearing_classification_witness:
  "isfinite (Finite 2) \<and> isfinite (Finite 3) \<and> isfinite (Finite 5) \<and> within_pi libm_atan2
   \<and> compute_bearing libm_atan2 (Finite 2) (Finite 3) (Finite 2) (Finite 5) = Finite 90
   \<and> classify_direction (compute_bearing libm_atan2 (Finite 2) (Finite 3) (Finite 2) (Finite 5))
       = ''north''
   \<and> (45 :: real) \<le> 90 \<and> (90 :: real) < 135"
proof -
  have s: "fsub (Finite 5) (Finite 3) = Finite 2" "fsub (Finite 2) (Finite 2) = Finite 0"
    using fsub_Finite [of 5 3] fsub_Finite [of 2 2] small_int_double [of 2]
    by (simp_all add: some_doubles)
  have "libm_atan2 2 0 = pi_double / 2"
    by (simp add: libm_atan2_def real_atan2_def round_double_pi_fractions)
  then have "math_atan2 libm_atan2 (Finite 2) (Finite 0) = Finite (pi_double / 2)"
    using math_atan2_Finite [of 2 libm_atan2 0] pi_double_pos by simp
  then have v: "compute_bearing libm_atan2 (Finite 2) (Finite 3) (Finite 2) (Finite 5) = Finite 90"
    by (simp add: compute_bearing_def s math_degrees_values flt_def)
  have "classify_direction (compute_bearing libm_atan2 (Finite 2) (Finite 3) (Finite 2) (Finite 5))
        = ''north''
      \<longleftrightarrow> 45 \<le> val (compute_bearing libm_atan2 (Finite 2) (Finite 3) (Finite 2) (Finite 5))
        \<and> val (compute_bearing libm_atan2 (Finite 2) (Finite 3) (Finite 2) (Finite 5)) < 135"
    using bearing_classification [of "Finite 2" "Finite 3" "Finite 2" "Finite 5" libm_atan2]
      libm_atan2_within_pi
    by simp
  then show ?thesis using v libm_atan2_within_pi by simp
qed

text \<open>
  The half-open range of the claim fails on the distinct points \<open>(0.0, 0.0)\<close> and
  \<open>(1.0, -2.0 ** -70)\<close>: the angle is a negative float of magnitude below \<open>2.0 ** -63\<close>,
  and its sum with 360 rounds to \<open>360.0\<close>.
\<close>

theorem bearing_360_counterexample:
  "compute_bearing libm_atan2 (Finite 0) (Finite 0) (Finite 1) (Finite (- (1 / 2 ^ 70)))
     = Finite 360
   \<and> \<not> val (compute_bearing libm_atan2 (Finite 0) (Finite 0) (Finite 1) (Finite (- (1 / 2 ^ 70))))
       < 360
   \<and> (Finite 0, Finite 0) \<noteq> (Finite 1, Finite (- (1 / 2 ^ 70)))"
  using bearing_just_below_east by simp

text \<open>
  Claim C9, as the code has it. Bearing followed by classification is total: every four
  floats, finite or not, and every C library get one of the four direction names. A
  coincident pair of finite points (\<open>x1 == x2\<close> and \<open>y1 == y2\<close>) gets a bearing equal to 0
  (\<open>0.0\<close> or \<open>-0.0\<close>) and the name east, except when \<open>x2\<close> is \<open>-0.0\<close> and \<open>x1\<close> is \<open>0.0\<close>: then
  \<open>x2 - x1\<close> is \<open>-0.0\<close>, \<open>math.atan2\<close> returns plus or minus \<open>math.pi\<close>, and the pair gets
  the bearing 180 and the name west.
\<close>

theorem classify_bearing_total:
  "classify_direction (compute_bearing libm x1 y1 x2 y2) \<in> {''east'', ''north'', ''west'', ''south''}
   \<and> (isfinite x1 \<and> isfinite y1 \<and> isfinite x2 \<and> isfinite y2 \<and> feq x1 x2 \<and> feq y1 y2 \<longrightarrow>
        (if x2 = NegZero \<and> x1 = Finite 0
         then compute_bearing libm x1 y1 x2 y2 = Finite 180
           \<and> classify_direction (compute_bearing libm x1 y1 x2 y2) = ''west''
         else isfinite (compute_bearing libm x1 y1 x2 y2)
           \<and> val (compute_bearing libm x1 y1 x2 y2) = 0
           \<and> classify_direction (compute_bearing libm x1 y1 x2 y2) = ''east''))"
proof -
  have c: "classify_direction (Finite 180) = ''west''" "classify_direction (Finite 0) = ''east''"
    "classify_direction NegZero = ''east''"
    by (simp_all add: classify_direction_def flt_def fge_def)
  have "if x2 = NegZero \<and> x1 = Finite 0
         then compute_bearing libm x1 y1 x2 y2 = Finite 180
           \<and> classify_direction (compute_bearing libm x1 y1 x2 y2) = ''west''
         else isfinite (compute_bearing libm x1 y1 x2 y2)
           \<and> val (compute_bearing libm x1 y1 x2 y2) = 0
           \<and> classify_direction (compute_bearing libm x1 y1 x2 y2) = ''east''"
    if "isfinite x1" "isfinite y1" "isfinite x2" "isfinite y2" "feq x1 x2" "feq y1 y2"
    using compute_bearing_coincident [OF that, of libm] c
    by (auto split: if_splits)
  then show ?thesis using classify_direction_total by blast
qed

theorem classify_bearing_total_witness:
  "isfinite (Finite 2) \<and> isfinite (Finite 3) \<and> feq (Finite 2) (Finite 2) \<and> feq (Finite 3) (Finite 3)
   \<and> val (compute_bearing libm_atan2 (Finite 2) (Finite 3) (Finite 2) (Finite 3)) = 0
   \<and> classify_direction (compute_bearing libm_atan2 (Finite 2) (Finite 3) (Finite 2) (Finite 3))
       = ''east''"
  using classify_bearing_total [of libm_atan2 "Finite 2" "Finite 3" "Finite 2" "Finite 3"]
  by (simp add: feq_def flt_def)

text \<open>
  The coincident pair \<open>(0.0, 0.0)\<close>, \<open>(-0.0, 0.0)\<close> has bearing 180 and is classified west.
\<close>

theorem coincident_west_counterexample:
  "feq (Finite 0) NegZero \<and> feq (Finite 0) (Finite 0)
   \<and> compute_bearing libm_atan2 (Finite 0) (Finite 0) NegZero (Finite 0) = Finite 180
   \<and> classify_direction (compute_bearing libm_atan2 (Finite 0) (Finite 0) NegZero (Finite 0))
       = ''west''"
proof -
  have "compute_bearing libm_atan2 (Finite 0) (Finite 0) NegZero (Finite 0) = Finite 180"
    using compute_bearing_coincident [of "Finite 0" "Finite 0" NegZero "Finite 0" libm_atan2]
    by (simp add: feq_def flt_def)
  then show ?thesis by (simp add: feq_def flt_def classify_direction_def fge_def)
qed


section \<open>Edge mapper (simulator/edge\_mapping.py)\<close>

text \<open>
  The network is read through sumolib. An edge is known by its identifier, its type and
  the coordinates of its two end nodes; a junction by its coordinates and its lists of
  incoming and outgoing edges; \<open>net.getNode\<close> is a lookup that fails on an unknown
  identifier. A direction table is a Python dict from direction name to a list of edge
  identifiers, kept in insertion order. The coordinates are floats, and the parameter
  \<open>libm\<close> is the \<open>atan2\<close> of the C library, as in \<open>math_atan2\<close>.
\<close>

type_synonym coord = "pyfloat \<times> pyfloat"

record edge =
  getID :: string
  getType :: "string option"
  getFromNode :: coord
  getToNode :: coord

record junction =
  getCoord :: coord
  getIncoming :: "edge list"
  getOutgoing :: "edge list"

type_synonym network = "string \<rightharpoonup> junction"

type_synonym direction_table = "(string \<times> string list) list"

record junction_mapping =
  incoming :: direction_table
  outgoing :: direction_table

datatype mapping_error = JunctionNotFound string

definition is_edge_for_cars :: "edge \<Rightarrow> bool" where
  "is_edge_for_cars e =
     (case getType e of
        None \<Rightarrow> False
      | Some etype \<Rightarrow> etype \<noteq> [] \<and> sublist ''highway'' etype \<and> \<not> sublist ''footway'' etype)"

text \<open>\<open>table.setdefault(direction, []).append(edge_id)\<close>\<close>

fun setdefault_append :: "direction_table \<Rightarrow> string \<Rightarrow> string \<Rightarrow> direction_table" where
  "setdefault_append [] d x = [(d, [x])]"
| "setdefault_append ((k, xs) # t) d x =
     (if k = d then (k, xs @ [x]) # t else (k, xs) # setdefault_append t d x)"

text \<open>The first loop of \<open>map_junction_edges\<close>: bearing from the junction to the from-node.\<close>

fun map_incoming ::
  "(real \<Rightarrow> real \<Rightarrow> real) \<Rightarrow> coord \<Rightarrow> edge list \<Rightarrow> direction_table \<Rightarrow> direction_table" where
  "map_incoming libm jc [] t = t"
| "map_incoming libm jc (e # es) t =
     (if \<not> is_edge_for_cars e then map_incoming libm jc es t
      else
        let from_node = getFromNode e;
            angle = compute_bearing libm (fst jc) (snd jc) (fst from_node) (snd from_node);
            direction = classify_direction angle
        in map_incoming libm jc es (setdefault_append t direction (getID e)))"

text \<open>The second loop: bearing from the junction to the to-node.\<close>

fun map_outgoing ::
  "(real \<Rightarrow> real \<Rightarrow> real) \<Rightarrow> coord \<Rightarrow> edge list \<Rightarrow> direction_table \<Rightarrow> direction_table" where
  "map_outgoing libm jc [] t = t"
| "map_outgoing libm jc (e # es) t =
     (if \<not> is_edge_for_cars e then map_outgoing libm jc es t
      else
        let to_node = getToNode e;
            angle = compute_bearing libm (fst jc) (snd jc) (fst to_node) (snd to_node);
            direction = classify_direction angle
        in map_outgoing libm jc es (setdefault_append t direction (getID e)))"

definition map_junction_edges ::
  "(real \<Rightarrow> real \<Rightarrow> real) \<Rightarrow> network \<Rightarrow> string \<Rightarrow> mapping_error + junction_mapping" where
  "map_junction_edges libm net junction_id =
     (case net junction_id of
        None \<Rightarrow> Inl (JunctionNotFound junction_id)
      | Some junction \<Rightarrow>
          Inr \<lparr>incoming = map_incoming libm (getCoord junction) (getIncoming junction) [],
               outgoing = map_outgoing libm (getCoord junction) (getOutgoing junction) []\<rparr>)"

text \<open>The direction the first loop files an incoming edge under.\<close>

definition incoming_direction :: "(real \<Rightarrow> real \<Rightarrow> real) \<Rightarrow> coord \<Rightarrow> edge \<Rightarrow> string" where
  "incoming_direction libm jc e =
     classify_direction
       (compute_bearing libm (fst jc) (snd jc) (fst (getFromNode e)) (snd (getFromNode e)))"

text \<open>An edge identifier is listed under a direction of a table.\<close>

definition listed_under :: "direction_table \<Rightarrow> string \<Rightarrow> string \<Rightarrow> bool" where
  "listed_under t d x = (case map_of t d of None \<Rightarrow> False | Some xs \<Rightarrow> x \<in> set xs)"

text \<open>A junction at the origin with one residential street arriving from the north.\<close>

definition north_edge :: edge where
  "north_edge = \<lparr>getID = ''e1'', getType = Some ''highway.residential'',
                  getFromNode = (Finite 0, Finite 1), getToNode = (Finite 0, Finite 0)\<rparr>"

definition north_junction :: junction where
  "north_junction = \<lparr>getCoord = (Finite 0, Finite 0), getIncoming = [north_edge], getOutgoing = []\<rparr>"

definition north_net :: network where
  "north_net = [''J'' \<mapsto> north_junction]"

subsection \<open>Edges stay listed\<close>

lemma map_of_setdefault_append:
  "map_of (setdefault_append t d' y) d =
     (if d = d' then Some ((case map_of t d of None \<Rightarrow> [] | Some xs \<Rightarrow> xs) @ [y])
      else map_of t d)"
  by (induction t d' y rule: setdefault_append.induct) auto

lemma listed_under_setdefault_append_same:
  "listed_under (setdefault_append t d x) d x"
  by (simp add: listed_under_def map_of_setdefault_append)

lemma listed_under_setdefault_append_keep:
  "listed_under t d x \<Longrightarrow> listed_under (setdefault_append t d' y) d x"
  by (auto simp add: listed_under_def map_of_setdefault_append split: option.splits)

lemma listed_under_map_incoming_keep:
  "listed_under t d x \<Longrightarrow> listed_under (map_incoming libm jc es t) d x"
  by (induction es arbitrary: t) (simp_all add: Let_def listed_under_setdefault_append_keep)

lemma map_incoming_lists_edge:
  "e \<in> set es \<Longrightarrow> is_edge_for_cars e \<Longrightarrow>
   listed_under (map_incoming libm jc es t) (incoming_direction libm jc e) (getID e)"
proof (induction es arbitrary: t)
  case Nil
  then show ?case by simp
next
  case (Cons a es)
  show ?case
  proof (cases "e = a")
    case True
    have "listed_under (setdefault_append t (incoming_direction libm jc a) (getID a))
            (incoming_direction libm jc a) (getID a)"
      by (rule listed_under_setdefault_append_same)
    then have "listed_under
        (map_incoming libm jc es (setdefault_append t (incoming_direction libm jc a) (getID a)))
        (incoming_direction libm jc a) (getID a)"
      by (rule listed_under_map_incoming_keep)
    then show ?thesis using True Cons.prems(2)
      by (simp add: Let_def incoming_direction_def)
  next
    case False
    then have "e \<in> set es" using Cons.prems(1) by simp
    then show ?thesis using Cons.IH Cons.prems(2) by (simp add: Let_def)
  qed
qed

text \<open>
  Claim C1, as the code has it. For every drivable incoming edge of a junction the
  network knows, the edge mapper succeeds and lists the edge under the direction of the
  bearing computed from the junction to the edge's from-node: the compass side the
  traffic arrives from.
\<close>

theorem incoming_edge_classified_from_junction:
  assumes "net junction_id = Some j"
    and "e \<in> set (getIncoming j)"
    and "is_edge_for_cars e"
  shows "\<exists>m. map_junction_edges libm net junction_id = Inr m
    \<and> listed_under (incoming m)
        (classify_direction
          (compute_bearing libm (fst (getCoord j)) (snd (getCoord j))
            (fst (getFromNode e)) (snd (getFromNode e))))
        (getID e)"
  using assms map_incoming_lists_edge [of e "getIncoming j" libm "getCoord j" "[]"]
  by (simp add: map_junction_edges_def incoming_direction_def)

lemma north_edge_for_cars: "is_edge_for_cars north_edge"
  by (simp add: is_edge_for_cars_def north_edge_def sublist_code prefix_code)

lemma north_bearings:
  "compute_bearing libm_atan2 (Finite 0) (Finite 0) (Finite 0) (Finite 1) = Finite 90"
  "compute_bearing libm_atan2 (Finite 0) (Finite 1) (Finite 0) (Finite 0) = Finite 270"
proof -
  show "compute_bearing libm_atan2 (Finite 0) (Finite 0) (Finite 0) (Finite 1) = Finite 90"
    by (rule compute_bearing_axes)
  have s: "fsub (Finite 0) (Finite 1) = Finite (- 1)" "fsub (Finite 0) (Finite 0) = Finite 0"
    using fsub_Finite [of 0 1] fsub_Finite [of 0 0] small_int_double [of "- 1"]
    by (simp_all add: some_doubles)
  have b: "math_atan2 libm_atan2 (Finite (- 1)) (Finite 0) = Finite (- (pi_double / 2))"
    using math_atan2_Finite [of "- 1" libm_atan2 0] pi_double_pos
    by (simp add: libm_atan2_values)
  show "compute_bearing libm_atan2 (Finite 0) (Finite 1) (Finite 0) (Finite 0) = Finite 270"
    using add_360 [of "- 90"]
    by (simp add: compute_bearing_def s b math_degrees_values flt_def some_doubles)
qed

lemma north_classes:
  "classify_direction (Finite 90) = ''north''" "classify_direction (Finite 270) = ''south''"
  by (simp_all add: classify_direction_def flt_def fge_def)

lemma north_net_mapping:
  "map_junction_edges libm_atan2 north_net ''J''
     = Inr \<lparr>incoming = [(''north'', [''e1''])], outgoing = []\<rparr>"
  using north_edge_for_cars
  by (simp add: map_junction_edges_def north_net_def north_junction_def Let_def)
     (simp add: north_edge_def north_bearings north_classes)

theorem incoming_edge_classified_from_junction_witness:
  "north_net ''J'' = Some north_junction \<and> north_edge \<in> set (getIncoming north_junction)
   \<and> is_edge_for_cars north_edge
   \<and> (\<exists>m. map_junction_edges libm_atan2 north_net ''J'' = Inr m
        \<and> listed_under (incoming m) ''north'' ''e1'')"
proof -
  have h: "north_net ''J'' = Some north_junction" "north_edge \<in> set (getIncoming north_junction)"
    by (simp_all add: north_net_def north_junction_def)
  have d: "classify_direction
          (compute_bearing libm_atan2 (fst (getCoord north_junction)) (snd (getCoord north_junction))
            (fst (getFromNode north_edge)) (snd (getFromNode north_edge))) = ''north''"
    by (simp add: north_junction_def north_edge_def north_bearings north_classes)
  have i: "getID north_edge = ''e1''" by (simp add: north_edge_def)
  show ?thesis
    using incoming_edge_classified_from_junction
        [of north_net "''J''" north_junction north_edge libm_atan2, OF h north_edge_for_cars]
      h north_edge_for_cars
    by (simp only: d i simp_thms)
qed

text \<open>
  The claim as the specification words it, with the bearing taken from the from-node to
  the junction, fails on the street arriving from the north: that bearing is 270 degrees,
  south, while the mapper lists the edge under north and has no south entry at all.
\<close>

theorem incoming_edge_from_node_bearing_counterexample:
  "north_net ''J'' = Some north_junction
   \<and> north_edge \<in> set (getIncoming north_junction)
   \<and> is_edge_for_cars north_edge
   \<and> classify_direction
       (compute_bearing libm_atan2 (fst (getFromNode north_edge)) (snd (getFromNode north_edge))
         (fst (getCoord north_junction)) (snd (getCoord north_junction))) = ''south''
   \<and> map_junction_edges libm_atan2 north_net ''J''
       = Inr \<lparr>incoming = [(''north'', [''e1''])], outgoing = []\<rparr>
   \<and> \<not> listed_under [(''north'', [''e1''])] ''south'' (getID north_edge)"
proof -
  have d: "classify_direction
       (compute_bearing libm_atan2 (fst (getFromNode north_edge)) (snd (getFromNode north_edge))
         (fst (getCoord north_junction)) (snd (getCoord north_junction))) = ''south''"
    by (simp add: north_junction_def north_edge_def north_bearings north_classes)
  have l: "\<not> listed_under [(''north'', [''e1''])] ''south'' (getID north_edge)"
    by (simp add: listed_under_def)
  have h: "north_net ''J'' = Some north_junction" "north_edge \<in> set (getIncoming north_junction)"
    by (simp_all add: north_net_def north_junction_def)
  show ?thesis using d l h north_edge_for_cars north_net_mapping by simp
qed


section \<open>The Python library\<close>

text \<open>
  A naive \<open>datetime\<close> is its number of microseconds since 0001-01-01T00:00:00, so that
  comparison is comparison of integers and a difference is a \<open>timedelta\<close> in
  microseconds. \<open>int(delta.total_seconds())\<close> truncates towards zero.
\<close>

type_synonym datetime = int

definition total_seconds_int :: "int \<Rightarrow> int" where
  "total_seconds_int delta =
     (if 0 \<le> delta then delta div 1000000 else - ((- delta) div 1000000))"

text \<open>
  The library functions the pipeline calls on strings are parameters of the model:
  \<open>datetime.fromisoformat\<close>, \<open>datetime.strptime\<close> and \<open>strftime\<close> with the format
  \<open>%Y-%m-%d %H:%M:%S\<close>, and \<open>int\<close>. A parser returns \<open>None\<close> where Python raises. A
  missing CSV field (Python's \<open>None\<close>) behaves as a string that no parser accepts.
\<close>

record pylib =
  fromisoformat :: "string \<Rightarrow> datetime option"
  strptime :: "string \<Rightarrow> datetime option"
  strftime :: "datetime \<Rightarrow> string"
  int_of_str :: "string \<Rightarrow> int option"

subsection \<open>The library on canonical strings\<close>

text \<open>
  For concrete scenarios: the library on timestamps written \<open>YYYY-MM-DD?HH:MM:SS\<close> with
  zero-padded fields (\<open>?\<close> any separator for \<open>fromisoformat\<close>, a space for \<open>strptime\<close>) and
  on decimal integers with an optional sign. Python agrees on these strings; it accepts
  further spellings, which the scenarios do not use.
\<close>

definition is_digit :: "char \<Rightarrow> bool" where
  "is_digit c = (c \<in> set ''0123456789'')"

definition digit_value :: "char \<Rightarrow> int" where
  "digit_value c = int (of_char c) - 48"

definition parse_digits :: "string \<Rightarrow> int option" where
  "parse_digits ds =
     (if ds \<noteq> [] \<and> list_all is_digit ds
      then Some (foldl (\<lambda>n c. 10 * n + digit_value c) 0 ds) else None)"

definition is_leap :: "int \<Rightarrow> bool" where
  "is_leap y = (y mod 4 = 0 \<and> (y mod 100 \<noteq> 0 \<or> y mod 400 = 0))"

definition days_in_month :: "int \<Rightarrow> int \<Rightarrow> int" where
  "days_in_month y m =
     (if m = 2 then (if is_leap y then 29 else 28)
      else if m \<in> {4, 6, 9, 11} then 30 else 31)"

definition days_before_year :: "int \<Rightarrow> int" where
  "days_before_year y = (y - 1) * 365 + (y - 1) div 4 - (y - 1) div 100 + (y - 1) div 400"

definition days_before_month :: "int \<Rightarrow> int \<Rightarrow> int" where
  "days_before_month y m = sum_list (map (days_in_month y) [1..m - 1])"

text \<open>The constructor \<open>datetime(y, mo, d, h, mi, s)\<close>.\<close>

definition datetime_of :: "int \<Rightarrow> int \<Rightarrow> int \<Rightarrow> int \<Rightarrow> int \<Rightarrow> int \<Rightarrow> datetime" where
  "datetime_of y mo d h mi s =
     ((((days_before_year y + days_before_month y mo + (d - 1)) * 24 + h) * 60 + mi) * 60 + s)
       * 1000000"

definition parse_datetime :: "(char \<Rightarrow> bool) \<Rightarrow> string \<Rightarrow> datetime option" where
  "parse_datetime sep str =
     (if length str = 19 \<and> str ! 4 = CHR ''-'' \<and> str ! 7 = CHR ''-'' \<and> sep (str ! 10)
         \<and> str ! 13 = CHR '':'' \<and> str ! 16 = CHR '':''
      then
        (case parse_digits (take 4 str) of None \<Rightarrow> None | Some y \<Rightarrow>
         case parse_digits (take 2 (drop 5 str)) of None \<Rightarrow> None | Some mo \<Rightarrow>
         case parse_digits (take 2 (drop 8 str)) of None \<Rightarrow> None | Some d \<Rightarrow>
         case parse_digits (take 2 (drop 11 str)) of None \<Rightarrow> None | Some h \<Rightarrow>
         case parse_digits (take 2 (drop 14 str)) of None \<Rightarrow> None | Some mi \<Rightarrow>
         case parse_digits (take 2 (drop 17 str)) of None \<Rightarrow> None | Some s \<Rightarrow>
           if 1 \<le> y \<and> 1 \<le> mo \<and> mo \<le> 12 \<and> 1 \<le> d \<and> d \<le> days_in_month y mo
              \<and> h < 24 \<and> mi < 60 \<and> s < 60
           then Some (datetime_of y mo d h mi s) else None)
      else None)"

text \<open>\<open>str\<close> of an integer: its decimal digits.\<close>

definition digit_char :: "nat \<Rightarrow> char" where
  "digit_char n = ''0123456789'' ! (n mod 10)"

fun str_nat :: "nat \<Rightarrow> string" where
  "str_nat n = (if n < 10 then [digit_char n] else str_nat (n div 10) @ [digit_char n])"

definition str_int :: "int \<Rightarrow> string" where
  "str_int i = (if i < 0 then CHR ''-'' # str_nat (nat (- i)) else str_nat (nat i))"

definition python_int :: "string \<Rightarrow> int option" where
  "python_int str =
     (case str of
        [] \<Rightarrow> None
      | c # cs \<Rightarrow>
          if c = CHR ''-'' then map_option uminus (parse_digits cs)
          else if c = CHR ''+'' then parse_digits cs
          else parse_digits str)"

text \<open>Day number (from 0 at 0001-01-01) to year, month, day, as CPython's \<open>_ord2ymd\<close>.\<close>

definition ymd_of_days :: "int \<Rightarrow> int \<times> int \<times> int" where
  "ymd_of_days n0 =
     (let n400 = n0 div 146097; r400 = n0 mod 146097;
          n100 = r400 div 36524; r100 = r400 mod 36524;
          n4 = r100 div 1461; r4 = r100 mod 1461;
          n1 = r4 div 365; n = r4 mod 365;
          year = n400 * 400 + 1 + n100 * 100 + n4 * 4 + n1
      in if n1 = 4 \<or> n100 = 4 then (year - 1, 12, 31)
         else
           let month = (n + 50) div 32;
               preceding = days_before_month year month
           in if preceding > n
              then (year, month - 1, n - days_before_month year (month - 1) + 1)
              else (year, month, n - preceding + 1))"

definition zero_pad :: "nat \<Rightarrow> string \<Rightarrow> string" where
  "zero_pad w str = replicate (w - length str) CHR ''0'' @ str"

definition format_datetime :: "datetime \<Rightarrow> string" where
  "format_datetime t =
     (let secs = t div 1000000;
          days = secs div 86400; r = secs mod 86400
      in case ymd_of_days days of (y, mo, d) \<Rightarrow>
           zero_pad 4 (str_int y) @ ''-'' @ zero_pad 2 (str_int mo) @ ''-'' @ zero_pad 2 (str_int d)
           @ '' '' @ zero_pad 2 (str_int (r div 3600)) @ '':''
           @ zero_pad 2 (str_int (r mod 3600 div 60)) @ '':'' @ zero_pad 2 (str_int (r mod 60)))"

definition python_lib :: pylib where
  "python_lib = \<lparr>fromisoformat = parse_datetime (\<lambda>c. True),
                  strptime = parse_datetime (\<lambda>c. c = CHR '' ''),
                  strftime = format_datetime,
                  int_of_str = python_int\<rparr>"

declare str_nat.simps [simp del]

lemma parse_digits_simps:
  "parse_digits ds =
     (if ds \<noteq> [] \<and> list_all (\<lambda>c. c \<in> set ''0123456789'') ds
      then Some (foldl (\<lambda>n c. 10 * n + (int (of_char c) - 48)) 0 ds) else None)"
  by (simp add: parse_digits_def is_digit_def digit_value_def list_all_iff)


section \<open>Availability calculator (simulator/simulation.py, simulator/utils.py)\<close>

text \<open>
  Both copies of the merge (in \<open>simulate_simulation\<close> and in
  \<open>get_data_availability_by_intersection\<close>) sort the pairs by start with Python's stable
  sort and then fold them into the list \<open>merged\<close>, extending its last interval or
  appending a new one.
\<close>

type_synonym interval = "datetime \<times> datetime"

definition merge_step :: "interval list \<Rightarrow> interval \<Rightarrow> interval list" where
  "merge_step merged interval =
     (case interval of (st, et) \<Rightarrow>
        if merged = [] then merged @ [(st, et)]
        else (case last merged of (last_st, last_et) \<Rightarrow>
                if st \<le> last_et then butlast merged @ [(last_st, max last_et et)]
                else merged @ [(st, et)]))"

definition merge_intervals :: "interval list \<Rightarrow> interval list" where
  "merge_intervals intervals = foldl merge_step [] (sort_key fst intervals)"

text \<open>
  The same loop as a recursion on the current last interval (for the proofs;
  \<open>foldl_merge_step\<close> below shows the two agree).
\<close>

fun merge_from :: "interval \<Rightarrow> interval list \<Rightarrow> interval list" where
  "merge_from cur [] = [cur]"
| "merge_from (s, e) ((s', e') # xs) =
     (if s' \<le> e then merge_from (s, max e e') xs else (s, e) # merge_from (s', e') xs)"

text \<open>
  Timestamps are instants of continuous time: the cover of a list of intervals is the set
  of real instants that lie in one of them, both ends included.
\<close>

definition cover :: "interval list \<Rightarrow> real set" where
  "cover xs = (\<Union>(s, e) \<in> set xs. {real_of_int s .. real_of_int e})"

text \<open>Every pair has its start no later than its end.\<close>

definition valid :: "interval list \<Rightarrow> bool" where
  "valid xs = (\<forall>(s, e) \<in> set xs. s \<le> e)"

text \<open>
  Pairwise non-overlapping and non-adjacent, in list order: every interval ends strictly
  before every later one starts.
\<close>

definition separated :: "interval list \<Rightarrow> bool" where
  "separated xs = sorted_wrt (\<lambda>a b. snd a < fst b) xs"


text \<open>An availability interval as the pipeline stores it: a dict of two formatted strings.\<close>

record interval_dict =
  iv_start :: string
  iv_end :: string

fun time_overlaps :: "pylib \<Rightarrow> interval_dict list \<Rightarrow> datetime \<Rightarrow> datetime \<Rightarrow> bool" where
  "time_overlaps lib [] sim_start sim_end = False"
| "time_overlaps lib (interval # intervals) sim_start sim_end =
     (case strptime lib (iv_start interval) of
        None \<Rightarrow> time_overlaps lib intervals sim_start sim_end
      | Some interval_start \<Rightarrow>
          (case strptime lib (iv_end interval) of
             None \<Rightarrow> time_overlaps lib intervals sim_start sim_end
           | Some interval_end \<Rightarrow>
               if sim_start < interval_end \<and> sim_end > interval_start then True
               else time_overlaps lib intervals sim_start sim_end))"

text \<open>Lines 255 to 261 of \<open>simulate_simulation\<close>: the merged intervals as formatted strings.\<close>

definition format_intervals :: "pylib \<Rightarrow> interval list \<Rightarrow> interval_dict list" where
  "format_intervals lib merged =
     map (\<lambda>(st, et). \<lparr>iv_start = strftime lib st, iv_end = strftime lib et\<rparr>) merged"

text \<open>
  The merged set \<open>[(10, 25), (30, 40)]\<close> of the specification's example, read as seconds
  after midnight of 2024-01-01.
\<close>

definition example_availability :: "interval_dict list" where
  "example_availability =
     [\<lparr>iv_start = ''2024-01-01 00:00:10'', iv_end = ''2024-01-01 00:00:25''\<rparr>,
      \<lparr>iv_start = ''2024-01-01 00:00:30'', iv_end = ''2024-01-01 00:00:40''\<rparr>]"

subsection \<open>The fold as a recursion\<close>

lemma foldl_merge_step: "foldl merge_step (acc @ [c]) xs = acc @ merge_from c xs"
proof (induction xs arbitrary: acc c)
  case Nil
  then show ?case by simp
next
  case (Cons x xs)
  obtain s e where c: "c = (s, e)" by (cases c)
  obtain s' e' where x: "x = (s', e')" by (cases x)
  show ?case
  proof (cases "s' \<le> e")
    case True
    then have "merge_step (acc @ [c]) x = acc @ [(s, max e e')]"
      by (simp add: merge_step_def c x)
    then show ?thesis using Cons.IH [of acc "(s, max e e')"] True by (simp add: c x)
  next
    case False
    then have "merge_step (acc @ [c]) x = (acc @ [c]) @ [x]"
      by (simp add: merge_step_def c x)
    then show ?thesis using Cons.IH [of "acc @ [c]" x] False by (simp add: c x)
  qed
qed

lemma foldl_merge_step_start: "foldl merge_step [] (c # xs) = merge_from c xs"
proof -
  have "merge_step [] c = [] @ [c]" by (cases c) (simp add: merge_step_def)
  then show ?thesis using foldl_merge_step [of "[]" c xs] by simp
qed

lemma merge_intervals_alt:
  "merge_intervals X = (case sort_key fst X of [] \<Rightarrow> [] | c # xs \<Rightarrow> merge_from c xs)"
proof (cases "sort_key fst X")
  case Nil
  then show ?thesis by (simp add: merge_intervals_def)
next
  case (Cons c xs)
  then show ?thesis by (simp only: merge_intervals_def foldl_merge_step_start list.case)
qed

lemma merge_from_shape:
  "sorted (map fst ((s, e) # xs)) \<Longrightarrow>
   \<exists>e2 rest. merge_from (s, e) xs = (s, e2) # rest \<and> e \<le> e2
     \<and> (\<forall>p \<in> set rest. e2 < fst p) \<and> separated rest \<and> sorted (map fst rest)
     \<and> fst ` set rest \<subseteq> fst ` set xs"
proof (induction xs arbitrary: s e)
  case Nil
  then show ?case by (simp add: separated_def)
next
  case (Cons x xs)
  obtain s' e' where x: "x = (s', e')" by (cases x)
  have ss: "s \<le> s'" "sorted (map fst ((s', e') # xs))" "sorted (map fst ((s, max e e') # xs))"
    using Cons.prems by (auto simp add: x)
  show ?case
  proof (cases "s' \<le> e")
    case True
    from Cons.IH [OF ss(3)] obtain e2 rest where
      r: "merge_from (s, max e e') xs = (s, e2) # rest" "max e e' \<le> e2"
        "\<forall>p \<in> set rest. e2 < fst p" "separated rest" "sorted (map fst rest)"
        "fst ` set rest \<subseteq> fst ` set xs" by blast
    then show ?thesis using True by (auto simp add: x)
  next
    case False
    from Cons.IH [OF ss(2)] obtain e2 rest where
      r: "merge_from (s', e') xs = (s', e2) # rest" "e' \<le> e2"
        "\<forall>p \<in> set rest. e2 < fst p" "separated rest" "sorted (map fst rest)"
        "fst ` set rest \<subseteq> fst ` set xs" by blast
    have "\<forall>q \<in> set xs. s' \<le> fst q" using ss(2) by simp
    then have "\<forall>a \<in> fst ` set xs. s' \<le> a" by blast
    then have ge: "\<forall>p \<in> set rest. s' \<le> fst p" using r(6) by blast
    have "merge_from (s, e) (x # xs) = (s, e) # (s', e2) # rest"
      using False r(1) by (simp add: x)
    moreover have "\<forall>p \<in> set ((s', e2) # rest). e < fst p" using False ge by auto
    moreover have "separated ((s', e2) # rest)" using r(3,4) by (auto simp add: separated_def)
    moreover have "sorted (map fst ((s', e2) # rest))" using r(5) ge by auto
    moreover have "fst ` set ((s', e2) # rest) \<subseteq> fst ` set (x # xs)" using r(6) by (auto simp add: x)
    ultimately show ?thesis by blast
  qed
qed

lemma cover_Cons: "cover ((s, e) # xs) = {real_of_int s .. real_of_int e} \<union> cover xs"
  by (simp add: cover_def)

lemma cover_Nil: "cover [] = {}"
  by (simp add: cover_def)

lemma cover_absorb:
  assumes "s \<le> s'" "s' \<le> e"
  shows "{real_of_int s .. real_of_int e} \<union> {real_of_int s' .. real_of_int e'}
       = {real_of_int s .. real_of_int (max e e')}"
  using assms by (auto simp add: max_def)

lemma cover_merge_from:
  "sorted (map fst (c # xs)) \<Longrightarrow> cover (merge_from c xs) = cover (c # xs)"
proof (induction c xs rule: merge_from.induct)
  case (1 cur)
  then show ?case by simp
next
  case (2 s e s' e' xs)
  have ss: "s \<le> s'" "sorted (map fst ((s', e') # xs))" "sorted (map fst ((s, max e e') # xs))"
    using "2.prems" by auto
  show ?case
  proof (cases "s' \<le> e")
    case True
    then have "cover (merge_from (s, e) ((s', e') # xs)) = cover ((s, max e e') # xs)"
      using "2.IH"(1) ss(3) by simp
    also have "\<dots> = ({real_of_int s .. real_of_int e} \<union> {real_of_int s' .. real_of_int e'}) \<union> cover xs"
      using cover_absorb [OF ss(1) True, of e'] by (simp add: cover_Cons)
    finally show ?thesis by (simp add: cover_Cons Un_assoc)
  next
    case False
    then show ?thesis using "2.IH"(2) ss(2) by (simp add: cover_Cons)
  qed
qed

lemma valid_merge_from: "valid (c # xs) \<Longrightarrow> valid (merge_from c xs)"
  by (induction c xs rule: merge_from.induct) (auto simp add: valid_def max_def)

lemma cover_set_eq: "set X = set Y \<Longrightarrow> cover X = cover Y"
  by (simp add: cover_def)

lemma valid_set_eq: "set X = set Y \<Longrightarrow> valid X = valid Y"
  by (simp add: valid_def)

lemma merge_intervals_cover: "cover (merge_intervals X) = cover X"
proof (cases "sort_key fst X")
  case Nil
  then have "X = []" by (metis length_sort list.size(3) length_0_conv)
  then show ?thesis by (simp add: merge_intervals_def)
next
  case (Cons c xs)
  then have "sorted (map fst (c # xs))" by (metis sorted_sort_key)
  then have "cover (merge_from c xs) = cover (c # xs)"
    by (rule cover_merge_from)
  moreover have "set (c # xs) = set X" by (metis Cons set_sort)
  then have "cover (c # xs) = cover X" by (rule cover_set_eq)
  ultimately show ?thesis using Cons by (simp add: merge_intervals_alt)
qed

lemma merge_intervals_valid: "valid X \<Longrightarrow> valid (merge_intervals X)"
proof (cases "sort_key fst X")
  case Nil
  then show ?thesis by (simp add: merge_intervals_alt valid_def)
next
  case (Cons c xs)
  assume "valid X"
  moreover have "set (c # xs) = set X" by (metis Cons set_sort)
  then have "valid (c # xs) = valid X" by (rule valid_set_eq)
  ultimately have "valid (c # xs)" by simp
  then show ?thesis using Cons valid_merge_from by (simp add: merge_intervals_alt)
qed

lemma merge_intervals_separated:
  "separated (merge_intervals X) \<and> sorted (map fst (merge_intervals X))"
proof (cases "sort_key fst X")
  case Nil
  then show ?thesis by (simp add: merge_intervals_alt separated_def)
next
  case (Cons c xs)
  obtain s e where c: "c = (s, e)" by (cases c)
  have "sorted (map fst ((s, e) # xs))" using Cons c by (metis sorted_sort_key)
  from merge_from_shape [OF this] obtain e2 rest where
    r: "merge_from (s, e) xs = (s, e2) # rest" "e \<le> e2"
        "\<forall>p \<in> set rest. e2 < fst p" "separated rest" "sorted (map fst rest)"
        "fst ` set rest \<subseteq> fst ` set xs" by blast
  have "\<forall>q \<in> set xs. s \<le> fst q" using \<open>sorted (map fst ((s, e) # xs))\<close> by simp
  then have "\<forall>a \<in> fst ` set xs. s \<le> a" by blast
  then have "\<forall>p \<in> set rest. s \<le> fst p" using r(6) by blast
  then show ?thesis using r Cons c by (auto simp add: merge_intervals_alt separated_def)
qed


subsection \<open>Uniqueness and minimality of a separated cover\<close>

lemma valid_Cons: "valid ((s, e) # xs) \<longleftrightarrow> s \<le> e \<and> valid xs"
  by (simp add: valid_def)

lemma separated_Cons: "separated (p # xs) \<longleftrightarrow> (\<forall>q \<in> set xs. snd p < fst q) \<and> separated xs"
  by (simp add: separated_def)

lemma coverI: "(a, b) \<in> set xs \<Longrightarrow> real_of_int a \<le> x \<Longrightarrow> x \<le> real_of_int b \<Longrightarrow> x \<in> cover xs"
  by (force simp add: cover_def)

lemma coverE:
  assumes "x \<in> cover xs"
  obtains a b where "(a, b) \<in> set xs" "real_of_int a \<le> x" "x \<le> real_of_int b"
  using assms by (auto simp add: cover_def)

lemma cover_first: "s \<le> e \<Longrightarrow> real_of_int s \<in> cover ((s, e) # xs)"
  by (simp add: cover_Cons)

lemma tail_above:
  assumes "separated ((s, e) # xs)" "x \<in> cover xs"
  shows "real_of_int e + 1 \<le> x"
proof -
  from assms(2) obtain a b where ab: "(a, b) \<in> set xs" "real_of_int a \<le> x"
    by (rule coverE)
  then have "e < a" using assms(1) by (auto simp add: separated_Cons)
  then have "real_of_int e + 1 \<le> real_of_int a" by linarith
  then show ?thesis using ab(2) by linarith
qed

lemma cover_lower:
  assumes "separated ((s, e) # xs)" "s \<le> e" "x \<in> cover ((s, e) # xs)"
  shows "real_of_int s \<le> x"
proof (cases "x \<in> cover xs")
  case True
  then have "real_of_int e + 1 \<le> x" using assms(1) by (rule tail_above [rotated])
  then show ?thesis using assms(2) by linarith
next
  case False
  then show ?thesis using assms(3) by (simp add: cover_Cons)
qed

lemma cover_tail:
  assumes "separated ((s, e) # xs)"
  shows "cover xs = cover ((s, e) # xs) - {real_of_int s .. real_of_int e}"
proof -
  have "\<forall>x \<in> cover xs. x \<notin> {real_of_int s .. real_of_int e}"
    using tail_above [OF assms] by fastforce
  then show ?thesis by (auto simp add: cover_Cons)
qed

lemma valid_cover_empty: "valid xs \<Longrightarrow> cover xs = {} \<Longrightarrow> xs = []"
proof (cases xs)
  case Nil
  then show ?thesis by simp
next
  case (Cons p ys)
  assume v: "valid xs" and c: "cover xs = {}"
  obtain s e where p: "p = (s, e)" by (cases p)
  have "s \<le> e" using v Cons p by (simp add: valid_Cons)
  then have "real_of_int s \<in> cover xs" by (simp add: Cons p cover_Cons)
  then show ?thesis using c by simp
qed

lemma first_end_le:
  assumes sepL: "separated ((s, e) # L)" and sepM: "separated ((s, e') # M)"
    and v: "s \<le> e" "s \<le> e'"
    and c: "cover ((s, e) # L) = cover ((s, e') # M)"
  shows "e' \<le> e"
proof (rule ccontr)
  assume "\<not> e' \<le> e"
  then have lt: "e < e'" by simp
  define x where "x = real_of_int e + 1 / 2"
  have "real_of_int e + 1 \<le> real_of_int e'" using lt by linarith
  then have "x \<in> {real_of_int s .. real_of_int e'}" using v(1) by (simp add: x_def)
  then have "x \<in> cover ((s, e) # L)" using c by (simp add: cover_Cons)
  moreover have "x \<notin> {real_of_int s .. real_of_int e}" by (simp add: x_def)
  ultimately have "x \<in> cover L" by (auto simp add: cover_Cons)
  then have "real_of_int e + 1 \<le> x" using sepL by (rule tail_above [rotated])
  then show False by (simp add: x_def)
qed

lemma separated_cover_unique:
  "valid L \<Longrightarrow> valid M \<Longrightarrow> separated L \<Longrightarrow> separated M \<Longrightarrow> cover L = cover M \<Longrightarrow> L = M"
proof (induction L arbitrary: M)
  case Nil
  then show ?case using valid_cover_empty [of M] by (simp add: cover_Nil)
next
  case (Cons p L)
  obtain s e where p: "p = (s, e)" by (cases p)
  have se: "s \<le> e" and vL: "valid L" using Cons.prems(1) by (simp_all add: p valid_Cons)
  have sepL: "separated ((s, e) # L)" using Cons.prems(3) by (simp add: p)
  have "M \<noteq> []"
  proof
    assume "M = []"
    then have "cover (p # L) = {}" using Cons.prems(5) by (simp add: cover_Nil)
    then show False using valid_cover_empty [OF Cons.prems(1)] by simp
  qed
  then obtain q M' where M: "M = q # M'" by (cases M) auto
  obtain s' e' where q: "q = (s', e')" by (cases q)
  have se': "s' \<le> e'" and vM: "valid M'" using Cons.prems(2) by (simp_all add: M q valid_Cons)
  have sepM: "separated ((s', e') # M')" using Cons.prems(4) by (simp add: M q)
  have c: "cover ((s, e) # L) = cover ((s', e') # M')" using Cons.prems(5) by (simp add: p M q)
  have "real_of_int s \<in> cover ((s, e) # L)" using se by (rule cover_first)
  then have "real_of_int s \<in> cover ((s', e') # M')" using c by simp
  then have "real_of_int s' \<le> real_of_int s" using cover_lower [OF sepM se'] by blast
  moreover have "real_of_int s' \<in> cover ((s', e') # M')" using se' by (rule cover_first)
  then have "real_of_int s' \<in> cover ((s, e) # L)" using c by simp
  then have "real_of_int s \<le> real_of_int s'" using cover_lower [OF sepL se] by blast
  ultimately have s: "s' = s" by simp
  have "e' \<le> e" using first_end_le [OF sepL _ se _ c [unfolded s]] sepM se' by (simp add: s)
  moreover have "e \<le> e'" using first_end_le [OF _ sepL _ se c [unfolded s, symmetric]] sepM se' by (simp add: s)
  ultimately have e: "e' = e" by simp
  have "cover L = cover M'"
    using cover_tail [OF sepL] cover_tail [OF sepM] c by (simp add: s e)
  moreover have "separated L" "separated M'" using sepL sepM by (simp_all add: separated_Cons)
  ultimately have "L = M'" using Cons.IH vL vM by blast
  then show ?case by (simp add: p M q s e)
qed

lemma separated_cover_minimal:
  "valid M \<Longrightarrow> separated M \<Longrightarrow> cover L = cover M \<Longrightarrow> length M \<le> length L"
proof (induction M arbitrary: L)
  case Nil
  then show ?case by simp
next
  case (Cons p M)
  obtain s e where p: "p = (s, e)" by (cases p)
  have se: "s \<le> e" and vM: "valid M" using Cons.prems(1) by (simp_all add: p valid_Cons)
  have sep: "separated ((s, e) # M)" using Cons.prems(2) by (simp add: p)
  have c: "cover L = {real_of_int s .. real_of_int e} \<union> cover M"
    using Cons.prems(3) by (simp add: p cover_Cons)
  define L' where "L' = filter (\<lambda>q. e < fst q) L"
  have above: "\<And>x. x \<in> cover M \<Longrightarrow> real_of_int e + 1 \<le> x"
    using tail_above [OF sep] by blast
  have "cover L' = cover M"
  proof (rule set_eqI, rule iffI)
    fix x assume "x \<in> cover L'"
    then obtain a b where ab0: "(a, b) \<in> set L'" "real_of_int a \<le> x" "x \<le> real_of_int b"
      by (rule coverE)
    then have ab: "(a, b) \<in> set L" "e < a" "real_of_int a \<le> x" "x \<le> real_of_int b"
      by (simp_all add: L'_def)
    then have "x \<in> cover L" by (metis coverI)
    moreover have "real_of_int e < x" using ab(2,3) by linarith
    then have "x \<notin> {real_of_int s .. real_of_int e}" by simp
    ultimately show "x \<in> cover M" using c by blast
  next
    fix x assume xM: "x \<in> cover M"
    then have xe: "real_of_int e + 1 \<le> x" by (rule above)
    have "x \<in> cover L" using xM c by simp
    then obtain a b where ab: "(a, b) \<in> set L" "real_of_int a \<le> x" "x \<le> real_of_int b"
      by (rule coverE)
    have "e < a"
    proof (rule ccontr)
      assume "\<not> e < a"
      then have ae: "a \<le> e" by simp
      define y where "y = real_of_int e + 1 / 2"
      have "real_of_int a \<le> y" "y \<le> real_of_int b" using ae xe ab(3) by (simp_all add: y_def)
      then have "y \<in> cover L" using ab(1) by (metis coverI)
      moreover have "y \<notin> {real_of_int s .. real_of_int e}" by (simp add: y_def)
      ultimately have "y \<in> cover M" using c by blast
      then have "real_of_int e + 1 \<le> y" by (rule above)
      then show False by (simp add: y_def)
    qed
    then have "(a, b) \<in> set L'" using ab(1) by (simp add: L'_def)
    then show "x \<in> cover L'" using ab(2,3) by (rule coverI)
  qed
  then have "length M \<le> length L'" using Cons.IH [OF vM] sep by (simp add: separated_Cons)
  moreover have "length L' < length L"
  proof -
    have "real_of_int s \<in> cover L" using c se by simp
    then obtain a b where ab: "(a, b) \<in> set L" "real_of_int a \<le> real_of_int s"
      by (rule coverE)
    then have "\<not> e < fst (a, b)" using se by simp
    then show ?thesis unfolding L'_def using ab(1) by (metis length_filter_less)
  qed
  ultimately show ?case by simp
qed

lemma merge_from_separated: "separated (c # xs) \<Longrightarrow> merge_from c xs = c # xs"
proof (induction c xs rule: merge_from.induct)
  case (1 cur)
  then show ?case by simp
next
  case (2 s e s' e' xs)
  then show ?case by (simp add: separated_Cons)
qed

lemma merge_intervals_fixpoint:
  assumes "separated M" "sorted (map fst M)"
  shows "merge_intervals M = M"
proof -
  have "sort_key fst M = M" using assms(2) by (rule sort_key_id_if_sorted)
  then show ?thesis using assms(1) merge_from_separated
    by (cases M) (simp_all add: merge_intervals_alt)
qed

lemma merge_intervals_idem: "merge_intervals (merge_intervals X) = merge_intervals X"
  using merge_intervals_separated [of X] by (simp add: merge_intervals_fixpoint)

lemma merge_intervals_perm:
  assumes "valid X" "mset P = mset X"
  shows "merge_intervals P = merge_intervals X"
proof -
  have s: "set P = set X" using assms(2) by (rule mset_eq_setD)
  then have "valid P" using assms(1) valid_set_eq by blast
  then have "valid (merge_intervals P)" by (rule merge_intervals_valid)
  moreover have "valid (merge_intervals X)" using assms(1) by (rule merge_intervals_valid)
  moreover have "cover (merge_intervals P) = cover (merge_intervals X)"
    using cover_set_eq [OF s] by (simp add: merge_intervals_cover)
  ultimately show ?thesis using merge_intervals_separated separated_cover_unique by blast
qed



subsection \<open>The claims about the merge\<close>

lemma merge_example:
  "merge_intervals [(10, 20), (15, 25), (30, 40)] = [(10, 25), (30, 40)]"
  by (simp add: merge_intervals_def merge_step_def)

lemma example_cover:
  "cover [(10, 25), (30, 40)] = cover [(10, 20), (15, 25), (30, 40)]"
  by (auto simp add: cover_def)

text \<open>
  Claim C4. For pairs with start no later than end, the merge returns intervals that are
  sorted ascending by start, pairwise non-overlapping and non-adjacent, and cover exactly
  the union of the inputs. It is the only such list of intervals, and no list of pairs
  with the same cover is shorter. Merging \<open>[(10,20),(15,25),(30,40)]\<close> gives
  \<open>[(10,25),(30,40)]\<close>.
\<close>

theorem merge_intervals_minimal_cover:
  assumes "valid X"
  shows "valid (merge_intervals X)
    \<and> sorted (map fst (merge_intervals X))
    \<and> separated (merge_intervals X)
    \<and> cover (merge_intervals X) = cover X
    \<and> (\<forall>L. valid L \<and> sorted (map fst L) \<and> separated L \<and> cover L = cover X
           \<longrightarrow> L = merge_intervals X)
    \<and> (\<forall>L. cover L = cover X \<longrightarrow> length (merge_intervals X) \<le> length L)
    \<and> merge_intervals [(10, 20), (15, 25), (30, 40)] = [(10, 25), (30, 40)]"
proof -
  have v: "valid (merge_intervals X)" using assms by (rule merge_intervals_valid)
  have s: "separated (merge_intervals X)" "sorted (map fst (merge_intervals X))"
    using merge_intervals_separated [of X] by simp_all
  have c: "cover (merge_intervals X) = cover X" by (rule merge_intervals_cover)
  have u: "\<forall>L. valid L \<and> sorted (map fst L) \<and> separated L \<and> cover L = cover X
           \<longrightarrow> L = merge_intervals X"
    using separated_cover_unique v s(1) c by metis
  have m: "\<forall>L. cover L = cover X \<longrightarrow> length (merge_intervals X) \<le> length L"
    using separated_cover_minimal [OF v s(1)] c by simp
  show ?thesis using v s c u m merge_example by blast
qed

theorem merge_intervals_minimal_cover_witness:
  "valid [(10, 20), (15, 25), (30, 40)]
   \<and> cover (merge_intervals [(10, 20), (15, 25), (30, 40)]) = cover [(10, 20), (15, 25), (30, 40)]
   \<and> [(10, 25), (30, 40)] = merge_intervals [(10, 20), (15, 25), (30, 40)]
   \<and> length (merge_intervals [(10, 20), (15, 25), (30, 40)]) \<le> length ([(10, 22), (22, 25), (30, 40)] :: interval list)"
proof -
  have h: "valid [(10, 20), (15, 25), (30, 40)]" by (simp add: valid_def)
  have l: "valid [(10, 25), (30, 40)]" "sorted (map fst ([(10, 25), (30, 40)] :: interval list))"
    "separated [(10, 25), (30, 40)]"
    by (simp_all add: valid_def separated_def)
  have c2: "cover [(10, 22), (22, 25), (30, 40)] = cover [(10, 20), (15, 25), (30, 40)]"
    by (auto simp add: cover_def)
  note t = merge_intervals_minimal_cover [OF h]
  have "[(10, 25), (30, 40)] = merge_intervals [(10, 20), (15, 25), (30, 40)]"
    using t l example_cover by blast
  moreover have "length (merge_intervals [(10, 20), (15, 25), (30, 40)])
      \<le> length ([(10, 22), (22, 25), (30, 40)] :: interval list)"
    using t c2 by blast
  ultimately show ?thesis using h t by blast
qed

text \<open>
  Claim C7, as the code has it. The merge is idempotent on every list. It is independent
  of the order of the input pairs when every pair has its start no later than its end.
\<close>

theorem merge_idempotent_order_independent:
  "merge_intervals (merge_intervals X) = merge_intervals X
   \<and> (valid X \<and> mset P = mset X \<longrightarrow> merge_intervals P = merge_intervals X)"
  using merge_intervals_idem [of X] merge_intervals_perm [of X P] by blast

theorem merge_idempotent_order_independent_witness:
  "valid [(10, 20), (15, 25), (30, 40)]
   \<and> mset [(30, 40), (15, 25), (10, 20)] = mset ([(10, 20), (15, 25), (30, 40)] :: interval list)
   \<and> merge_intervals [(30, 40), (15, 25), (10, 20)] = merge_intervals [(10, 20), (15, 25), (30, 40)]
   \<and> merge_intervals (merge_intervals [(10, 20), (15, 25), (30, 40)])
       = merge_intervals [(10, 20), (15, 25), (30, 40)]"
proof -
  have h: "valid [(10, 20), (15, 25), (30, 40)]" by (simp add: valid_def)
  have p: "mset [(30, 40), (15, 25), (10, 20)] = mset ([(10, 20), (15, 25), (30, 40)] :: interval list)"
    by simp
  show ?thesis
    using merge_idempotent_order_independent
      [of "[(10, 20), (15, 25), (30, 40)]" "[(30, 40), (15, 25), (10, 20)]"] h p
    by blast
qed

text \<open>
  Without that condition the order matters: two pairs with the same start, one of them
  ending before it starts, merge to one interval or stay two, depending on which comes
  first (the sort is stable and keeps their order).
\<close>

theorem merge_order_counterexample:
  "mset [(5, 7), (5, 1)] = mset ([(5, 1), (5, 7)] :: interval list)
   \<and> merge_intervals [(5, 1), (5, 7)] = [(5, 1), (5, 7)]
   \<and> merge_intervals [(5, 7), (5, 1)] = [(5, 7)]"
  by (simp add: merge_intervals_def merge_step_def)

subsection \<open>The overlap predicate\<close>

lemma time_overlaps_iff:
  "time_overlaps lib intervals sim_start sim_end \<longleftrightarrow>
     (\<exists>interval \<in> set intervals. \<exists>s e.
        strptime lib (iv_start interval) = Some s \<and> strptime lib (iv_end interval) = Some e
        \<and> sim_start < e \<and> sim_end > s)"
  by (induction intervals) (auto split: option.splits)

lemma strptime_examples:
  "strptime python_lib ''2024-01-01 00:00:10'' = Some (datetime_of 2024 1 1 0 0 10)"
  "strptime python_lib ''2024-01-01 00:00:25'' = Some (datetime_of 2024 1 1 0 0 25)"
  "strptime python_lib ''2024-01-01 00:00:30'' = Some (datetime_of 2024 1 1 0 0 30)"
  "strptime python_lib ''2024-01-01 00:00:40'' = Some (datetime_of 2024 1 1 0 0 40)"
  by (simp_all add: python_lib_def parse_datetime_def parse_digits_simps days_in_month_def)

lemma datetime_of_seconds_less:
  "datetime_of y mo d h mi s < datetime_of y mo d h mi s' \<longleftrightarrow> s < s'"
  by (simp add: datetime_of_def)

text \<open>
  Claim C5. The overlap predicate is true exactly when some interval of the set, read
  through \<open>strptime\<close>, has \<open>qStart < end\<close> and \<open>qEnd > start\<close>. Against the merged set
  \<open>[(10,25),(30,40)]\<close> the window \<open>[18,22)\<close> overlaps and the window \<open>[26,29)\<close> does not.
\<close>

theorem time_overlaps_half_open:
  "(time_overlaps lib intervals q_start q_end \<longleftrightarrow>
      (\<exists>interval \<in> set intervals. \<exists>s e.
         strptime lib (iv_start interval) = Some s \<and> strptime lib (iv_end interval) = Some e
         \<and> q_start < e \<and> q_end > s))
   \<and> time_overlaps python_lib example_availability
         (datetime_of 2024 1 1 0 0 18) (datetime_of 2024 1 1 0 0 22)
   \<and> \<not> time_overlaps python_lib example_availability
         (datetime_of 2024 1 1 0 0 26) (datetime_of 2024 1 1 0 0 29)"
proof -
  have "time_overlaps python_lib example_availability
         (datetime_of 2024 1 1 0 0 18) (datetime_of 2024 1 1 0 0 22)"
    by (simp add: example_availability_def strptime_examples datetime_of_seconds_less)
  moreover have "\<not> time_overlaps python_lib example_availability
         (datetime_of 2024 1 1 0 0 26) (datetime_of 2024 1 1 0 0 29)"
    by (simp add: example_availability_def strptime_examples datetime_of_seconds_less)
  ultimately show ?thesis using time_overlaps_iff [of lib intervals q_start q_end] by blast
qed


text \<open>
  The example set is what the pipeline computes from three rows: their intervals merged
  and formatted.
\<close>

lemma format_examples:
  "format_datetime (datetime_of 2024 1 1 0 0 10) = ''2024-01-01 00:00:10''"
  "format_datetime (datetime_of 2024 1 1 0 0 25) = ''2024-01-01 00:00:25''"
  "format_datetime (datetime_of 2024 1 1 0 0 30) = ''2024-01-01 00:00:30''"
  "format_datetime (datetime_of 2024 1 1 0 0 40) = ''2024-01-01 00:00:40''"
  by code_simp+

lemma example_merge_datetimes:
  "merge_intervals
     [(datetime_of 2024 1 1 0 0 10, datetime_of 2024 1 1 0 0 20),
      (datetime_of 2024 1 1 0 0 15, datetime_of 2024 1 1 0 0 25),
      (datetime_of 2024 1 1 0 0 30, datetime_of 2024 1 1 0 0 40)]
   = [(datetime_of 2024 1 1 0 0 10, datetime_of 2024 1 1 0 0 25),
      (datetime_of 2024 1 1 0 0 30, datetime_of 2024 1 1 0 0 40)]"
  by (simp add: merge_intervals_def merge_step_def datetime_of_def)

lemma example_availability_formatted:
  "format_intervals python_lib
     (merge_intervals
        [(datetime_of 2024 1 1 0 0 10, datetime_of 2024 1 1 0 0 20),
         (datetime_of 2024 1 1 0 0 15, datetime_of 2024 1 1 0 0 25),
         (datetime_of 2024 1 1 0 0 30, datetime_of 2024 1 1 0 0 40)])
   = example_availability"
  by (simp only: example_merge_datetimes)
     (simp add: format_intervals_def python_lib_def format_examples example_availability_def)


section \<open>Flow synthesizer (simulator/simulation.py)\<close>

text \<open>
  A row of \<open>csv.DictReader\<close> is an ordered dict. Its keys are the column names of the
  header and, when the line has more fields than the header, the key \<open>None\<close> (the reader's
  \<open>restkey\<close>), which comes last and holds the list of the surplus fields. The value of a
  column is its field, or \<open>None\<close> (the reader's \<open>restval\<close>) when the line is shorter than the
  header. A flow is the attribute dict of its XML element (all attributes are strings).
\<close>

datatype csv_value = Field string | Missing | Surplus "string list"

type_synonym row = "(string option \<times> csv_value) list"

text \<open>
  What \<open>generate_flows_for_intersection\<close> raises: its own \<open>ValueError\<close>, and the
  \<open>AttributeError\<close> of \<open>key.split\<close> on the key \<open>None\<close>.
\<close>

datatype flow_error = IncompleteMapping string string string | AttributeError

text \<open>
  \<open>int(value)\<close> and \<open>datetime.fromisoformat(value)\<close> on a value of a row: \<open>None\<close> and a
  list raise a \<open>TypeError\<close>, which the \<open>try\<close> around the call catches like a failed
  parse. \<open>format_key\<close> is the key inside an f-string.
\<close>

definition int_of_value :: "pylib \<Rightarrow> csv_value \<Rightarrow> int option" where
  "int_of_value lib value =
     (case value of
        Field str \<Rightarrow> int_of_str lib str
      | Missing \<Rightarrow> None
      | Surplus surplus \<Rightarrow> None)"

definition fromisoformat_value :: "pylib \<Rightarrow> csv_value \<Rightarrow> datetime option" where
  "fromisoformat_value lib value =
     (case value of
        Field str \<Rightarrow> fromisoformat lib str
      | Missing \<Rightarrow> None
      | Surplus surplus \<Rightarrow> None)"

definition format_key :: "string option \<Rightarrow> string" where
  "format_key key = (case key of None \<Rightarrow> ''None'' | Some str \<Rightarrow> str)"

record flow =
  flow_id :: string
  flow_begin :: string
  flow_end :: string
  flow_number :: string
  flow_from :: string
  flow_to :: string
  flow_type :: string

text \<open>The tables at the head of \<open>generate_flows_for_intersection\<close>.\<close>

definition incoming_mapping :: "string \<rightharpoonup> string" where
  "incoming_mapping =
     map_of [(''n'', ''north''), (''s'', ''south''), (''e'', ''east''), (''w'', ''west'')]"

definition outgoing_mapping :: "string \<rightharpoonup> (string \<rightharpoonup> string)" where
  "outgoing_mapping =
     map_of
       [(''r'', map_of [(''n'', ''west''), (''e'', ''north''), (''s'', ''east''), (''w'', ''south'')]),
        (''t'', map_of [(''n'', ''south''), (''e'', ''west''), (''s'', ''north''), (''w'', ''east'')]),
        (''l'', map_of [(''n'', ''east''), (''e'', ''south''), (''s'', ''west''), (''w'', ''north'')])]"

definition ignore_keys :: "string set" where
  "ignore_keys =
     {''_id'', ''count_id'', ''count_date'', ''location_name'', ''longitude'', ''latitude'',
      ''centreline_type'', ''centreline_id'', ''px'', ''start_time'', ''end_time''}"

text \<open>\<open>str.split(sep)\<close> and \<open>str.lower()\<close> (on ASCII letters).\<close>

fun split_on :: "char \<Rightarrow> string \<Rightarrow> string list" where
  "split_on sep [] = [[]]"
| "split_on sep (c # cs) =
     (if c = sep then [] # split_on sep cs
      else (case split_on sep cs of [] \<Rightarrow> [[c]] | p # ps \<Rightarrow> (c # p) # ps))"

definition lower_char :: "char \<Rightarrow> char" where
  "lower_char c =
     (case map_of (zip ''ABCDEFGHIJKLMNOPQRSTUVWXYZ'' ''abcdefghijklmnopqrstuvwxyz'') c of
        None \<Rightarrow> c
      | Some l \<Rightarrow> l)"

definition lower :: "string \<Rightarrow> string" where
  "lower str = map lower_char str"

text \<open>
  The body of the loop over the items of a row, up to the lookup in the junction mapping:
  the three or four fields of the key, the vehicle class, the count and the two
  directions. \<open>Inr None\<close> is a \<open>continue\<close>, \<open>Inl\<close> a raise: the key \<open>None\<close> is not in
  \<open>ignore_keys\<close> and has no method \<open>split\<close>. The variables \<open>pfx\<close> and \<open>cnt\<close> are the source's
  \<open>prefix\<close> and \<open>count\<close>.
\<close>

definition split_key :: "string option \<Rightarrow> flow_error + string list" where
  "split_key key =
     (case key of
        None \<Rightarrow> Inl AttributeError
      | Some str \<Rightarrow> Inr (split_on CHR ''_'' str))"

definition key_fields :: "string option \<Rightarrow> flow_error + (string \<times> string \<times> string) option" where
  "key_fields key =
     (case split_key key of
        Inl err \<Rightarrow> Inl err
      | Inr parts \<Rightarrow>
          Inr (case parts of
                 [pfx, vehicle_str, movement] \<Rightarrow> Some (pfx, vehicle_str, movement)
               | [pfx, appr, vehicle_str, movement] \<Rightarrow>
                   if lower appr \<noteq> ''appr'' then None else Some (pfx, vehicle_str, movement)
               | _ \<Rightarrow> None))"

definition vehicle_class :: "string \<Rightarrow> string option" where
  "vehicle_class vehicle_str =
     (if vehicle_str = ''cars'' then Some ''car''
      else if vehicle_str \<in> {''truck'', ''bus''} then Some vehicle_str
      else None)"

definition movement_of_fields ::
  "pylib \<Rightarrow> string \<times> string \<times> string \<Rightarrow> csv_value \<Rightarrow> (string \<times> int \<times> string \<times> string) option" where
  "movement_of_fields lib parsed value =
     (case parsed of (pfx, vehicle_str, movement) \<Rightarrow>
      (case vehicle_class vehicle_str of
        None \<Rightarrow> None
      | Some vehicle \<Rightarrow>
      (case int_of_value lib value of
        None \<Rightarrow> None
      | Some cnt \<Rightarrow>
          if cnt \<le> 0 then None
          else
            (case incoming_mapping (lower pfx) of
               None \<Rightarrow> None
             | Some from_dir \<Rightarrow>
            (case (case outgoing_mapping (lower movement) of
                     None \<Rightarrow> None
                   | Some turn \<Rightarrow> turn (lower pfx)) of
               None \<Rightarrow> None
             | Some to_dir \<Rightarrow> Some (vehicle, cnt, from_dir, to_dir))))))"

definition movement_of_key ::
  "pylib \<Rightarrow> string option \<Rightarrow> csv_value \<Rightarrow> flow_error + (string \<times> int \<times> string \<times> string) option" where
  "movement_of_key lib key value =
     (if key \<in> Some ` ignore_keys then Inr None
      else case key_fields key of
        Inl err \<Rightarrow> Inl err
      | Inr None \<Rightarrow> Inr None
      | Inr (Some parsed) \<Rightarrow> Inr (movement_of_fields lib parsed value))"

text \<open>
  \<open>table.get(direction)\<close> is falsy when the direction is absent or its list is empty;
  otherwise the flow takes the first edge of the list.
\<close>

definition first_edge :: "direction_table \<Rightarrow> string \<Rightarrow> string option" where
  "first_edge t direction =
     (case map_of t direction of
        None \<Rightarrow> None
      | Some [] \<Rightarrow> None
      | Some (x # xs) \<Rightarrow> Some x)"

text \<open>One item of a row: skipped (\<open>Inr None\<close>), a flow, or a raise.\<close>

definition decode_key ::
  "pylib \<Rightarrow> junction_mapping \<Rightarrow> string \<Rightarrow> int \<Rightarrow> int \<Rightarrow> string option \<times> csv_value
     \<Rightarrow> flow_error + flow option" where
  "decode_key lib mapping intersection_id base_time duration item =
     (case item of (key, value) \<Rightarrow>
        (case movement_of_key lib key value of
           Inl err \<Rightarrow> Inl err
         | Inr None \<Rightarrow> Inr None
         | Inr (Some (vehicle, cnt, from_dir, to_dir)) \<Rightarrow>
             (case first_edge (incoming mapping) from_dir of
                None \<Rightarrow> Inl (IncompleteMapping (format_key key) from_dir to_dir)
              | Some from_edge \<Rightarrow>
             (case first_edge (outgoing mapping) to_dir of
                None \<Rightarrow> Inl (IncompleteMapping (format_key key) from_dir to_dir)
              | Some to_edge \<Rightarrow>
                  Inr (Some \<lparr>flow_id = intersection_id @ ''_'' @ format_key key @ ''_''
                               @ str_int base_time,
                             flow_begin = str_int base_time,
                             flow_end = str_int (base_time + duration),
                             flow_number = str_int cnt,
                             flow_from = from_edge,
                             flow_to = to_edge,
                             flow_type = vehicle\<rparr>)))))"

text \<open>The inner loop appends to the list \<open>flows\<close>; a raise abandons the list.\<close>

fun items_loop ::
  "pylib \<Rightarrow> junction_mapping \<Rightarrow> string \<Rightarrow> int \<Rightarrow> int \<Rightarrow> row \<Rightarrow> flow list \<Rightarrow> flow_error + flow list" where
  "items_loop lib mapping intersection_id base_time duration [] flows = Inr flows"
| "items_loop lib mapping intersection_id base_time duration (item # items) flows =
     (case decode_key lib mapping intersection_id base_time duration item of
        Inl err \<Rightarrow> Inl err
      | Inr None \<Rightarrow> items_loop lib mapping intersection_id base_time duration items flows
      | Inr (Some flow_elem) \<Rightarrow>
          items_loop lib mapping intersection_id base_time duration items (flows @ [flow_elem]))"

text \<open>The \<open>try\<close> block: a missing column or a failed parse skips the row.\<close>

definition row_times :: "pylib \<Rightarrow> row \<Rightarrow> (datetime \<times> datetime) option" where
  "row_times lib row =
     (case map_of row (Some ''start_time'') of None \<Rightarrow> None | Some start_value \<Rightarrow>
      case fromisoformat_value lib start_value of None \<Rightarrow> None | Some row_start \<Rightarrow>
      case map_of row (Some ''end_time'') of None \<Rightarrow> None | Some end_value \<Rightarrow>
      case fromisoformat_value lib end_value of None \<Rightarrow> None | Some row_end \<Rightarrow>
        Some (row_start, row_end))"

fun rows_loop ::
  "pylib \<Rightarrow> junction_mapping \<Rightarrow> string \<Rightarrow> datetime \<Rightarrow> datetime \<Rightarrow> row list \<Rightarrow> flow list
     \<Rightarrow> flow_error + flow list" where
  "rows_loop lib mapping intersection_id simulation_start_dt simulation_end_dt [] flows = Inr flows"
| "rows_loop lib mapping intersection_id simulation_start_dt simulation_end_dt (row # rows) flows =
     (case row_times lib row of
        None \<Rightarrow> rows_loop lib mapping intersection_id simulation_start_dt simulation_end_dt rows flows
      | Some (row_start, row_end) \<Rightarrow>
          if row_start < simulation_start_dt \<or> row_start \<ge> simulation_end_dt
          then rows_loop lib mapping intersection_id simulation_start_dt simulation_end_dt rows flows
          else
            let base_time = total_seconds_int (row_start - simulation_start_dt);
                duration = total_seconds_int (row_end - row_start)
            in (case items_loop lib mapping intersection_id base_time duration row flows of
                  Inl err \<Rightarrow> Inl err
                | Inr flows' \<Rightarrow>
                    rows_loop lib mapping intersection_id simulation_start_dt simulation_end_dt
                      rows flows'))"

definition generate_flows_for_intersection ::
  "pylib \<Rightarrow> junction_mapping \<Rightarrow> row list \<Rightarrow> string \<Rightarrow> datetime \<Rightarrow> datetime \<Rightarrow> flow_error + flow list" where
  "generate_flows_for_intersection lib mapping rows intersection_id simulation_start_dt
       simulation_end_dt =
     rows_loop lib mapping intersection_id simulation_start_dt simulation_end_dt rows []"


text \<open>The mapping and the flow of the end-to-end scenario.\<close>

definition example_mapping :: junction_mapping where
  "example_mapping = \<lparr>incoming = [(''north'', [''e1''])], outgoing = [(''south'', [''e2''])]\<rparr>"

definition example_flow :: "string \<Rightarrow> flow" where
  "example_flow key =
     \<lparr>flow_id = ''J_'' @ key @ ''_0'', flow_begin = ''0'', flow_end = ''900'',
      flow_number = ''5'', flow_from = ''e1'', flow_to = ''e2'', flow_type = ''car''\<rparr>"

lemma north_through_key:
  "movement_of_key lib (Some ''n_appr_cars_t'') v =
     Inr (case int_of_value lib v of
            None \<Rightarrow> None
          | Some cnt \<Rightarrow> if cnt \<le> 0 then None else Some (''car'', cnt, ''north'', ''south''))"
  by (simp add: movement_of_key_def movement_of_fields_def ignore_keys_def key_fields_def
      split_key_def lower_def lower_char_def vehicle_class_def incoming_mapping_def
      outgoing_mapping_def image_iff split: option.splits)

lemma str_int_examples: "str_int 0 = ''0''" "str_int 900 = ''900''" "str_int 5 = ''5''"
  by code_simp+

text \<open>
  Claim C3. One row with \<open>n_appr_cars_t = 5\<close> from 08:00:00 to 08:15:00 on 2024-01-01, a
  window from 08:00:00 to 08:30:00 and a mapping with \<open>incoming.north = [e1]\<close> and
  \<open>outgoing.south = [e2]\<close> give exactly one flow: begin 0, end 900, number 5, from e1,
  to e2, type car. The library is any that reads the two timestamps as instants 900
  seconds apart and the field \<open>5\<close> as the integer 5.
\<close>

theorem end_to_end_single_flow:
  assumes "fromisoformat lib ''2024-01-01T08:00:00'' = Some t0"
    and "fromisoformat lib ''2024-01-01T08:15:00'' = Some (t0 + 900 * 1000000)"
    and "int_of_str lib ''5'' = Some 5"
    and "map_of (incoming mapping) ''north'' = Some [e1]"
    and "map_of (outgoing mapping) ''south'' = Some [e2]"
  shows "generate_flows_for_intersection lib mapping
     [[(Some ''start_time'', Field ''2024-01-01T08:00:00''),
       (Some ''end_time'', Field ''2024-01-01T08:15:00''),
       (Some ''n_appr_cars_t'', Field ''5'')]]
     intersection_id t0 (t0 + 1800 * 1000000)
   = Inr [\<lparr>flow_id = intersection_id @ ''_n_appr_cars_t_0'', flow_begin = ''0'',
            flow_end = ''900'', flow_number = ''5'', flow_from = e1, flow_to = e2,
            flow_type = ''car''\<rparr>]"
proof -
  have t: "row_times lib [(Some ''start_time'', Field ''2024-01-01T08:00:00''),
      (Some ''end_time'', Field ''2024-01-01T08:15:00''), (Some ''n_appr_cars_t'', Field ''5'')]
      = Some (t0, t0 + 900 * 1000000)"
    using assms(1,2) by (simp add: row_times_def fromisoformat_value_def)
  have s: "movement_of_key lib (Some ''start_time'') (Field ''2024-01-01T08:00:00'') = Inr None"
    "movement_of_key lib (Some ''end_time'') (Field ''2024-01-01T08:15:00'') = Inr None"
    by (simp_all add: movement_of_key_def ignore_keys_def)
  have k: "movement_of_key lib (Some ''n_appr_cars_t'') (Field ''5'')
      = Inr (Some (''car'', 5, ''north'', ''south''))"
    using assms(3) by (simp add: north_through_key int_of_value_def)
  have e: "first_edge (incoming mapping) ''north'' = Some e1"
    "first_edge (outgoing mapping) ''south'' = Some e2"
    using assms(4,5) by (simp_all add: first_edge_def)
  show ?thesis
    by (simp add: generate_flows_for_intersection_def t Let_def total_seconds_int_def
        decode_key_def s k e str_int_examples format_key_def)
qed

lemma scenario_library:
  "fromisoformat python_lib ''2024-01-01T08:00:00'' = Some (datetime_of 2024 1 1 8 0 0)"
  "fromisoformat python_lib ''2024-01-01T08:15:00'' = Some (datetime_of 2024 1 1 8 15 0)"
  "int_of_str python_lib ''5'' = Some 5"
  by (simp_all add: python_lib_def parse_datetime_def parse_digits_simps days_in_month_def
      python_int_def)

lemma scenario_times:
  "datetime_of 2024 1 1 8 15 0 = datetime_of 2024 1 1 8 0 0 + 900 * 1000000"
  "datetime_of 2024 1 1 8 30 0 = datetime_of 2024 1 1 8 0 0 + 1800 * 1000000"
  by (simp_all add: datetime_of_def)

theorem end_to_end_single_flow_witness:
  "fromisoformat python_lib ''2024-01-01T08:00:00'' = Some (datetime_of 2024 1 1 8 0 0)
   \<and> fromisoformat python_lib ''2024-01-01T08:15:00'' = Some (datetime_of 2024 1 1 8 15 0)
   \<and> int_of_str python_lib ''5'' = Some 5
   \<and> generate_flows_for_intersection python_lib example_mapping
        [[(Some ''start_time'', Field ''2024-01-01T08:00:00''),
          (Some ''end_time'', Field ''2024-01-01T08:15:00''),
          (Some ''n_appr_cars_t'', Field ''5'')]]
        ''J'' (datetime_of 2024 1 1 8 0 0) (datetime_of 2024 1 1 8 30 0)
      = Inr [example_flow ''n_appr_cars_t'']"
proof -
  have m: "map_of (incoming example_mapping) ''north'' = Some [''e1'']"
    "map_of (outgoing example_mapping) ''south'' = Some [''e2'']"
    by (simp_all add: example_mapping_def)
  have a: "fromisoformat python_lib ''2024-01-01T08:15:00''
      = Some (datetime_of 2024 1 1 8 0 0 + 900 * 1000000)"
    using scenario_library(2) by (simp only: scenario_times(1))
  show ?thesis
    using end_to_end_single_flow [OF scenario_library(1) a scenario_library(3) m, of "''J''"]
      scenario_library
    by (simp only: scenario_times(2) example_flow_def) simp
qed

subsection \<open>Keys that are skipped\<close>













































section \<open>The loop over the intersections (simulator/simulation.py)\<close>

text \<open>
  Lines 190 to 310 of \<open>simulate_simulation\<close> locate the junction, compute and check the
  availability intervals and fetch or compute the edge mapping, through the network, the
  cache and the user. Each of their exits appends one message to \<open>incomplete_data\<close> and
  continues with the next intersection; otherwise line 311 is reached with a junction
  identifier, a mapping and the rows of the intersection. The parameter \<open>prepare\<close> stands
  for these lines: it returns the message, or what line 311 starts from. The state of the
  loop is the list of flow elements appended to \<open>routes_root\<close>, the list
  \<open>incomplete_data\<close> and the list \<open>simulation_details\<close>.
\<close>

record prepared =
  p_location_name :: string
  p_unique_id :: string
  p_junction_id :: string
  p_edge_mapping :: junction_mapping
  p_intersection_rows :: "row list"
  p_availability_intervals :: "interval_dict list"

record details =
  d_intersection_id :: string
  d_centreline_id :: string
  d_location_name :: string
  d_data_availability :: "interval_dict list"
  d_simulation_start :: string
  d_simulation_end :: string
  d_monitored_incoming_edges :: "string set"
  d_monitored_outgoing_edges :: "string set"
  d_incoming_edge_directions :: "string \<rightharpoonup> string"
  d_outgoing_edge_directions :: "string \<rightharpoonup> string"

record sim_state =
  routes_root :: "flow list"
  incomplete_data :: "string list"
  simulation_details :: "details list"

text \<open>A string between apostrophes, as the f-strings of the messages write it.\<close>

definition quoted :: "string \<Rightarrow> string" where
  "quoted str = [CHR 0x27] @ str @ [CHR 0x27]"

text \<open>The text of what \<open>generate_flows_for_intersection\<close> raises.\<close>

fun str_error :: "flow_error \<Rightarrow> string" where
  "str_error (IncompleteMapping key from_dir to_dir) =
     ''Incomplete edge mapping for key '' @ quoted key @ '': missing incoming '' @ quoted from_dir
       @ '' or outgoing '' @ quoted to_dir @ ''.''"
| "str_error AttributeError =
     quoted ''NoneType'' @ '' object has no attribute '' @ quoted ''split''"

text \<open>
  The bookkeeping of lines 323 to 350: the monitored edges are Python sets (their order in
  the JSON output is not fixed), and an edge gets the last direction of the table whose
  list holds it.
\<close>

definition edge_directions :: "direction_table \<Rightarrow> string \<Rightarrow> (string \<rightharpoonup> string) \<Rightarrow> (string \<rightharpoonup> string)" where
  "edge_directions table edge_name directions =
     fold (\<lambda>(direction, edges) ds. if edge_name \<in> set edges then ds(edge_name \<mapsto> direction) else ds)
       table directions"

definition record_details :: "pylib \<Rightarrow> prepared \<Rightarrow> datetime \<Rightarrow> datetime \<Rightarrow> flow list \<Rightarrow> details" where
  "record_details lib p simulation_start_dt simulation_end_dt flows =
     \<lparr>d_intersection_id = p_junction_id p,
      d_centreline_id = p_unique_id p,
      d_location_name = p_location_name p,
      d_data_availability = p_availability_intervals p,
      d_simulation_start = strftime lib simulation_start_dt,
      d_simulation_end = strftime lib simulation_end_dt,
      d_monitored_incoming_edges = set (map flow_from flows),
      d_monitored_outgoing_edges = set (map flow_to flows),
      d_incoming_edge_directions =
        fold (\<lambda>flow_elem. edge_directions (incoming (p_edge_mapping p)) (flow_from flow_elem))
          flows Map.empty,
      d_outgoing_edge_directions =
        fold (\<lambda>flow_elem. edge_directions (outgoing (p_edge_mapping p)) (flow_to flow_elem))
          flows Map.empty\<rparr>"

text \<open>The two messages of lines 317 to 322 and 351 to 355.\<close>

definition processing_error_message :: "prepared \<Rightarrow> flow_error \<Rightarrow> string" where
  "processing_error_message p e =
     ''Intersection '' @ quoted (p_location_name p) @ '' (ID: '' @ p_junction_id p
       @ '') CSV processing error: '' @ str_error e"

definition no_flows_message :: "prepared \<Rightarrow> string" where
  "no_flows_message p =
     ''Intersection '' @ quoted (p_location_name p) @ '' (ID: '' @ p_junction_id p
       @ '') has no flows for the selected time window.''"

text \<open>
  Lines 311 to 355: the \<open>try\<close> around the flow generation. A raise appends one message
  and nothing else; an empty list of flows appends one message; otherwise the flows are
  appended to \<open>routes_root\<close> and one entry to \<open>simulation_details\<close>.
\<close>

definition process_flows :: "pylib \<Rightarrow> datetime \<Rightarrow> datetime \<Rightarrow> sim_state \<Rightarrow> prepared \<Rightarrow> sim_state" where
  "process_flows lib simulation_start_dt simulation_end_dt st p =
     (case generate_flows_for_intersection lib (p_edge_mapping p) (p_intersection_rows p)
             (p_junction_id p) simulation_start_dt simulation_end_dt of
        Inl e \<Rightarrow>
          st\<lparr>incomplete_data := incomplete_data st @ [processing_error_message p e]\<rparr>
      | Inr flows \<Rightarrow>
          if flows = [] then
            st\<lparr>incomplete_data := incomplete_data st @ [no_flows_message p]\<rparr>
          else
            st\<lparr>routes_root := routes_root st @ flows,
               simulation_details := simulation_details st @
                 [record_details lib p simulation_start_dt simulation_end_dt flows]\<rparr>)"

text \<open>The body of the loop, and the loop.\<close>

definition process_intersection ::
  "pylib \<Rightarrow> ('i \<Rightarrow> string + prepared) \<Rightarrow> datetime \<Rightarrow> datetime \<Rightarrow> sim_state \<Rightarrow> 'i \<Rightarrow> sim_state" where
  "process_intersection lib prepare simulation_start_dt simulation_end_dt st intersection =
     (case prepare intersection of
        Inl message \<Rightarrow> st\<lparr>incomplete_data := incomplete_data st @ [message]\<rparr>
      | Inr p \<Rightarrow> process_flows lib simulation_start_dt simulation_end_dt st p)"

fun intersections_loop ::
  "pylib \<Rightarrow> ('i \<Rightarrow> string + prepared) \<Rightarrow> datetime \<Rightarrow> datetime \<Rightarrow> 'i list \<Rightarrow> sim_state \<Rightarrow> sim_state" where
  "intersections_loop lib prepare simulation_start_dt simulation_end_dt [] st = st"
| "intersections_loop lib prepare simulation_start_dt simulation_end_dt (intersection # intersections) st =
     intersections_loop lib prepare simulation_start_dt simulation_end_dt intersections
       (process_intersection lib prepare simulation_start_dt simulation_end_dt st intersection)"

text \<open>A direction is absent from a table or has an empty list in it.\<close>

definition direction_missing :: "direction_table \<Rightarrow> string \<Rightarrow> bool" where
  "direction_missing table direction \<longleftrightarrow> map_of table direction \<in> {None, Some []}"

lemma first_edge_missing: "first_edge table direction = None \<longleftrightarrow> direction_missing table direction"
  by (auto simp add: first_edge_def direction_missing_def split: option.splits list.splits)

lemma decode_key_raises:
  assumes "movement_of_key lib (Some key) value = Inr (Some (vehicle, cnt, from_dir, to_dir))"
    and "direction_missing (incoming mapping) from_dir \<or> direction_missing (outgoing mapping) to_dir"
  shows "decode_key lib mapping intersection_id base_time duration (Some key, value)
         = Inl (IncompleteMapping key from_dir to_dir)"
  using assms
  by (auto simp add: decode_key_def format_key_def first_edge_missing [symmetric]
      split: option.splits)

lemma items_loop_raises:
  assumes "item \<in> set items"
    and "decode_key lib mapping intersection_id base_time duration item = Inl e"
  shows "\<exists>e'. items_loop lib mapping intersection_id base_time duration items flows = Inl e'"
  using assms
proof (induction items arbitrary: flows)
  case Nil
  then show ?case by simp
next
  case (Cons a items)
  show ?case
  proof (cases "decode_key lib mapping intersection_id base_time duration a")
    case (Inl e0)
    then show ?thesis by simp
  next
    case (Inr r)
    then have "a \<noteq> item" using Cons.prems(2) by auto
    then have "item \<in> set items" using Cons.prems(1) by simp
    then show ?thesis using Cons.IH Cons.prems(2) Inr by (cases r) simp_all
  qed
qed

lemma rows_loop_raises:
  assumes "row \<in> set rows"
    and "row_times lib row = Some (row_start, row_end)"
    and "simulation_start_dt \<le> row_start" "row_start < simulation_end_dt"
    and "(Some key, value) \<in> set row"
    and "movement_of_key lib (Some key) value = Inr (Some (vehicle, cnt, from_dir, to_dir))"
    and "direction_missing (incoming mapping) from_dir \<or> direction_missing (outgoing mapping) to_dir"
  shows "\<exists>e. rows_loop lib mapping intersection_id simulation_start_dt simulation_end_dt rows flows
             = Inl e"
  using assms(1)
proof (induction rows arbitrary: flows)
  case Nil
  then show ?case by simp
next
  case (Cons r rows)
  show ?case
  proof (cases "r = row")
    case True
    have "\<exists>e'. items_loop lib mapping intersection_id
            (total_seconds_int (row_start - simulation_start_dt))
            (total_seconds_int (row_end - row_start)) row flows = Inl e'"
      using items_loop_raises [OF assms(5) decode_key_raises [OF assms(6,7)]] by blast
    then show ?thesis using True assms(2,3,4) by (auto simp add: Let_def)
  next
    case False
    then have "row \<in> set rows" using Cons.prems by simp
    then have ih: "\<And>fl. \<exists>e. rows_loop lib mapping intersection_id simulation_start_dt
        simulation_end_dt rows fl = Inl e" using Cons.IH by blast
    show ?thesis using ih by (auto simp add: Let_def split: option.splits sum.splits)
  qed
qed

definition hard_stop_row :: row where
  "hard_stop_row =
     [(Some ''start_time'', Field ''2024-01-01T08:00:00''),
      (Some ''end_time'', Field ''2024-01-01T08:15:00''),
      (Some ''n_appr_cars_r'', Field ''3''), (Some ''n_appr_cars_t'', Field ''5'')]"

definition hard_stop_case :: prepared where
  "hard_stop_case =
     \<lparr>p_location_name = ''Main St'', p_unique_id = ''100'', p_junction_id = ''J'',
      p_edge_mapping = \<lparr>incoming = [(''north'', [''e1''])], outgoing = [(''west'', [''e3''])]\<rparr>,
      p_intersection_rows = [hard_stop_row],
      p_availability_intervals =
        [\<lparr>iv_start = ''2024-01-01 08:00:00'', iv_end = ''2024-01-01 08:15:00''\<rparr>]\<rparr>"

definition hard_stop_prepare :: "unit \<Rightarrow> string + prepared" where
  "hard_stop_prepare u = Inr hard_stop_case"

definition empty_state :: sim_state where
  "empty_state = \<lparr>routes_root = [], incomplete_data = [], simulation_details = []\<rparr>"

lemma hard_stop_facts:
  "row_times python_lib hard_stop_row
     = Some (datetime_of 2024 1 1 8 0 0, datetime_of 2024 1 1 8 15 0)"
  "movement_of_key python_lib (Some ''n_appr_cars_r'') (Field ''3'')
     = Inr (Some (''car'', 3, ''north'', ''west''))"
  "movement_of_key python_lib (Some ''n_appr_cars_t'') (Field ''5'')
     = Inr (Some (''car'', 5, ''north'', ''south''))"
  "datetime_of 2024 1 1 8 0 0 \<le> datetime_of 2024 1 1 8 0 0"
  "datetime_of 2024 1 1 8 0 0 < datetime_of 2024 1 1 8 30 0"
  by code_simp+

lemma hard_stop_raises:
  "generate_flows_for_intersection python_lib (p_edge_mapping hard_stop_case)
       (p_intersection_rows hard_stop_case) (p_junction_id hard_stop_case)
       (datetime_of 2024 1 1 8 0 0) (datetime_of 2024 1 1 8 30 0)
   = Inl (IncompleteMapping ''n_appr_cars_t'' ''north'' ''south'')"
  by code_simp

lemma hard_stop_first_key_has_edges:
  "decode_key python_lib (p_edge_mapping hard_stop_case) ''J'' 0 900
     (Some ''n_appr_cars_r'', Field ''3'')
   = Inr (Some \<lparr>flow_id = ''J_n_appr_cars_r_0'', flow_begin = ''0'', flow_end = ''900'',
                 flow_number = ''3'', flow_from = ''e1'', flow_to = ''e3'', flow_type = ''car''\<rparr>)"
  by code_simp

text \<open>
  Claim C2. When the flow decoding of an intersection meets, in a row inside the
  simulation window, a key that passes every check and whose origin direction is absent
  from or empty in the incoming table, or whose destination direction is absent from or
  empty in the outgoing table, then flow generation fails for the whole intersection: no
  flow of it reaches \<open>routes_root\<close> (also none built from earlier keys and rows),
  \<open>simulation_details\<close> is unchanged, exactly one message is appended to
  \<open>incomplete_data\<close>, and the loop goes on with the next intersection.
\<close>

theorem incomplete_mapping_discards_intersection:
  assumes "prepare intersection = Inr p"
    and "row \<in> set (p_intersection_rows p)"
    and "row_times lib row = Some (row_start, row_end)"
    and "simulation_start_dt \<le> row_start" "row_start < simulation_end_dt"
    and "(Some key, value) \<in> set row"
    and "movement_of_key lib (Some key) value = Inr (Some (vehicle, cnt, from_dir, to_dir))"
    and "direction_missing (incoming (p_edge_mapping p)) from_dir
         \<or> direction_missing (outgoing (p_edge_mapping p)) to_dir"
  shows "\<exists>e.
      generate_flows_for_intersection lib (p_edge_mapping p) (p_intersection_rows p)
        (p_junction_id p) simulation_start_dt simulation_end_dt = Inl e
    \<and> process_intersection lib prepare simulation_start_dt simulation_end_dt st intersection
        = st\<lparr>incomplete_data := incomplete_data st @ [processing_error_message p e]\<rparr>
    \<and> routes_root
          (process_intersection lib prepare simulation_start_dt simulation_end_dt st intersection)
        = routes_root st
    \<and> simulation_details
          (process_intersection lib prepare simulation_start_dt simulation_end_dt st intersection)
        = simulation_details st
    \<and> intersections_loop lib prepare simulation_start_dt simulation_end_dt (intersection # rest) st
        = intersections_loop lib prepare simulation_start_dt simulation_end_dt rest
            (st\<lparr>incomplete_data := incomplete_data st @ [processing_error_message p e]\<rparr>)"
proof -
  from rows_loop_raises [OF assms(2-8)] obtain e where
    e: "generate_flows_for_intersection lib (p_edge_mapping p) (p_intersection_rows p)
        (p_junction_id p) simulation_start_dt simulation_end_dt = Inl e"
    unfolding generate_flows_for_intersection_def by blast
  have s: "process_intersection lib prepare simulation_start_dt simulation_end_dt st intersection
        = st\<lparr>incomplete_data := incomplete_data st @ [processing_error_message p e]\<rparr>"
    using e assms(1) by (simp add: process_intersection_def process_flows_def)
  show ?thesis
    by (rule exI [of _ e]) (simp add: e s)
qed


theorem incomplete_mapping_discards_intersection_witness:
  "hard_stop_prepare () = Inr hard_stop_case
   \<and> hard_stop_row \<in> set (p_intersection_rows hard_stop_case)
   \<and> (Some ''n_appr_cars_t'', Field ''5'') \<in> set hard_stop_row
   \<and> movement_of_key python_lib (Some ''n_appr_cars_t'') (Field ''5'')
       = Inr (Some (''car'', 5, ''north'', ''south''))
   \<and> direction_missing (outgoing (p_edge_mapping hard_stop_case)) ''south''
   \<and> process_intersection python_lib hard_stop_prepare
         (datetime_of 2024 1 1 8 0 0) (datetime_of 2024 1 1 8 30 0) empty_state ()
       = \<lparr>routes_root = [],
          incomplete_data =
            [processing_error_message hard_stop_case
               (IncompleteMapping ''n_appr_cars_t'' ''north'' ''south'')],
          simulation_details = []\<rparr>"
proof -
  have p: "hard_stop_prepare () = Inr hard_stop_case" by (simp add: hard_stop_prepare_def)
  have r: "hard_stop_row \<in> set (p_intersection_rows hard_stop_case)"
    by (simp add: hard_stop_case_def)
  have k: "(Some ''n_appr_cars_t'', Field ''5'') \<in> set hard_stop_row"
    by (simp add: hard_stop_row_def)
  have m: "direction_missing (outgoing (p_edge_mapping hard_stop_case)) ''south''"
    by (simp add: direction_missing_def hard_stop_case_def)
  then have m': "direction_missing (incoming (p_edge_mapping hard_stop_case)) ''north''
      \<or> direction_missing (outgoing (p_edge_mapping hard_stop_case)) ''south''" by simp
  from incomplete_mapping_discards_intersection
    [where prepare = hard_stop_prepare and intersection = "()" and st = empty_state,
     OF p r hard_stop_facts(1) hard_stop_facts(4) hard_stop_facts(5) k hard_stop_facts(3) m']
  obtain e where
    e: "generate_flows_for_intersection python_lib (p_edge_mapping hard_stop_case)
         (p_intersection_rows hard_stop_case) (p_junction_id hard_stop_case)
         (datetime_of 2024 1 1 8 0 0) (datetime_of 2024 1 1 8 30 0) = Inl e"
       "process_intersection python_lib hard_stop_prepare
         (datetime_of 2024 1 1 8 0 0) (datetime_of 2024 1 1 8 30 0) empty_state ()
        = empty_state\<lparr>incomplete_data :=
            incomplete_data empty_state @ [processing_error_message hard_stop_case e]\<rparr>"
    by blast
  have "e = IncompleteMapping ''n_appr_cars_t'' ''north'' ''south''"
    using e(1) hard_stop_raises by simp
  then show ?thesis using e(2) p r k m hard_stop_facts(3) by (simp add: empty_state_def)
qed


section \<open>Mapping cache (simulator/database.py)\<close>

text \<open>
  The cache is one JSON file at the configured path. What is on disk is no file, an empty
  file, content that \<open>json.load\<close> rejects, a JSON value that is not an object, or a
  document: a dict from junction identifier (JSON keys are strings) to record. The
  records are values of any type \<open>'r\<close>. Whether the write of \<open>update_processed_db\<close>
  succeeds is decided by the environment: a failed write is caught and printed, and
  leaves on disk whatever the environment says.
\<close>

datatype 'r file_content =
    NoFile
  | EmptyFile
  | Unreadable
  | NotAnObject
  | Document "string \<rightharpoonup> 'r"

record 'r filesystem =
  data_dir_exists :: bool
  processed_db_file :: "'r file_content"

datatype 'r loaded = Dict "string \<rightharpoonup> 'r" | OtherValue

datatype 'r write_outcome = Written | WriteFailed "'r file_content"

datatype db_error = TypeError

definition load_processed_db :: "'r filesystem \<Rightarrow> 'r filesystem \<times> 'r loaded" where
  "load_processed_db fs =
     (fs\<lparr>data_dir_exists := True\<rparr>,
      case processed_db_file fs of
        NoFile \<Rightarrow> Dict Map.empty
      | EmptyFile \<Rightarrow> Dict Map.empty
      | Unreadable \<Rightarrow> Dict Map.empty
      | NotAnObject \<Rightarrow> OtherValue
      | Document db \<Rightarrow> Dict db)"

text \<open>\<open>db[junction_id] = record\<close> raises on a value that is not a dict, outside the \<open>try\<close>.\<close>

definition update_processed_db ::
  "'r write_outcome \<Rightarrow> string \<Rightarrow> 'r \<Rightarrow> 'r filesystem \<Rightarrow> db_error + 'r filesystem" where
  "update_processed_db outcome junction_id rec fs =
     (case load_processed_db fs of
        (fs1, OtherValue) \<Rightarrow> Inl TypeError
      | (fs1, Dict db) \<Rightarrow>
          let db' = db(junction_id \<mapsto> rec)
          in (case outcome of
                Written \<Rightarrow> Inr (fs1\<lparr>processed_db_file := Document db'\<rparr>)
              | WriteFailed left \<Rightarrow> Inr (fs1\<lparr>processed_db_file := left\<rparr>)))"

definition example_cache :: "nat filesystem" where
  "example_cache =
     \<lparr>data_dir_exists = True, processed_db_file = Document [''A'' \<mapsto> 1, ''B'' \<mapsto> 2]\<rparr>"

text \<open>
  Claim C10. On a cache that loads as a document, a \<open>put\<close> of a record under a junction
  identifier whose write succeeds leaves on disk a document that holds the new record
  under that identifier and, under every other identifier, the record it held before;
  a fresh load returns that document.
\<close>

theorem update_leaves_other_records:
  assumes "snd (load_processed_db fs) = Dict db"
  shows "\<exists>fs' db'.
      update_processed_db Written junction_id rec fs = Inr fs'
    \<and> processed_db_file fs' = Document db'
    \<and> snd (load_processed_db fs') = Dict db'
    \<and> db' junction_id = Some rec
    \<and> (\<forall>k. k \<noteq> junction_id \<longrightarrow> db' k = db k)"
  using assms
  by (auto simp add: update_processed_db_def load_processed_db_def split: file_content.splits)

theorem update_leaves_other_records_witness:
  "snd (load_processed_db example_cache) = Dict [''A'' \<mapsto> 1, ''B'' \<mapsto> 2]
   \<and> (\<exists>fs' db'. update_processed_db Written ''C'' 3 example_cache = Inr fs'
         \<and> processed_db_file fs' = Document db'
         \<and> db' ''C'' = Some 3 \<and> db' ''A'' = Some 1 \<and> db' ''B'' = Some 2)"
proof -
  have h: "snd (load_processed_db example_cache) = Dict [''A'' \<mapsto> 1, ''B'' \<mapsto> 2]"
    by (simp add: load_processed_db_def example_cache_def)
  from update_leaves_other_records [OF h, of "''C''" 3] obtain fs' db' where
    u: "update_processed_db Written ''C'' 3 example_cache = Inr fs'"
       "processed_db_file fs' = Document db'" "db' ''C'' = Some 3"
       "\<forall>k. k \<noteq> ''C'' \<longrightarrow> db' k = [''A'' \<mapsto> 1, ''B'' \<mapsto> (2::nat)] k"
    by blast
  have "db' ''A'' = Some 1" "db' ''B'' = Some 2" using u(4) by simp_all
  then show ?thesis using h u by blast
qed

end
